theory Spec2Isabelle
  imports Main "HOL-Library.Word" "HOL-Library.Signed_Division"
begin

unbundle bit_operations_syntax

section \<open>Data model\<close>

type_synonym byte = "8 word"
type_synonym uint16 = "16 word"
type_synonym uint32 = "32 word"
type_synonym uint64 = "64 word"

text \<open>
  \<open>net.IP\<close> is a byte slice. A \<open>nil\<close> result of \<open>To4\<close>/\<open>To16\<close> is \<open>None\<close>.
\<close>

type_synonym IP = "byte list"

text \<open>
  The advertisement of \<open>vrrp/core.go\<close>. The transport file \<open>ha_net.go\<close> uses a type
  \<open>advertisement\<close> of its own package whose declaration is not part of the sources; it
  is the same fixed 8-octet record (section 3 of the specification), so one record serves
  both files.
\<close>

record advertisement =
  VersionType :: byte
  VRID :: byte
  Priority :: byte
  CountIPAddrs :: byte
  AdvertInt :: uint16
  Checksum :: uint16

definition vrrpAdvertSize :: nat where
  "vrrpAdvertSize = 8"

definition vrrpAdvertType :: byte where
  "vrrpAdvertType = 1"

definition vrrpVersion :: byte where
  "vrrpVersion = 3"

definition vrrpVersionType :: byte where
  "vrrpVersionType = push_bit 4 vrrpVersion OR vrrpAdvertType"

text \<open>
  Modelled from the spec: the constant \<open>vrrpPort\<close> used by \<open>ha_net.go\<close> is declared in a
  file that is not part of the sources; the specification gives IP protocol 112. The
  constant \<open>vrrpAdvertSize\<close> of that package is missing in the same way; it is the 8 of
  \<open>vrrp/core.go\<close> and of the specification.
\<close>

definition vrrpPort :: byte where
  "vrrpPort = 112"

datatype error =
    OpError nat            \<comment> \<open>a \<open>*net.OpError\<close> whose \<open>Err\<close> is the \<open>syscall.Errno\<close> given\<close>
  | OpErrorOther           \<comment> \<open>a \<open>*net.OpError\<close> whose \<open>Err\<close> is not a \<open>syscall.Errno\<close>\<close>
  | OtherError             \<comment> \<open>an error of any other type returned by a library call\<close>
  | PacketTooSmall nat
  | NotIPv4
  | HeaderTooLong nat nat
  | InvalidHopLimit
  | InvalidDestination
  | HopLimitNotFound
  | DestinationNotFound
  | UnexpectedEOF
  | NeedTwoAddresses
  | ChecksumFailed
  | RecvChannelFull

subsection \<open>Big-endian encoding (\<open>binary.Write\<close> and \<open>binary.Read\<close>)\<close>

definition be16 :: "uint16 \<Rightarrow> byte list" where
  "be16 x = [ucast (drop_bit 8 x), ucast x]"

definition be32 :: "uint32 \<Rightarrow> byte list" where
  "be32 x = [ucast (drop_bit 24 x), ucast (drop_bit 16 x), ucast (drop_bit 8 x), ucast x]"

definition rd16 :: "byte \<Rightarrow> byte \<Rightarrow> uint16" where
  "rd16 hi lo = push_bit 8 (ucast hi) OR ucast lo"

definition encode :: "advertisement \<Rightarrow> byte list" where
  "encode a =
     [VersionType a, VRID a, Priority a, CountIPAddrs a] @ be16 (AdvertInt a) @ be16 (Checksum a)"

fun decode :: "byte list \<Rightarrow> error + advertisement" where
  "decode (b0 # b1 # b2 # b3 # b4 # b5 # b6 # b7 # rest) =
     Inr \<lparr>VersionType = b0, VRID = b1, Priority = b2, CountIPAddrs = b3,
          AdvertInt = rd16 b4 b5, Checksum = rd16 b6 b7\<rparr>"
| "decode bs = Inl UnexpectedEOF"

subsection \<open>Addresses (\<open>net.IP.To4\<close>, \<open>net.IP.To16\<close>, \<open>net.IP.Equal\<close>)\<close>

definition v4InV6Prefix :: "byte list" where
  "v4InV6Prefix = [0, 0, 0, 0, 0, 0, 0, 0, 0, 0, 0xff, 0xff]"

definition To4 :: "IP \<Rightarrow> IP option" where
  "To4 ip =
     (if length ip = 4 then Some ip
      else if length ip = 16 \<and> take 10 ip = replicate 10 0 \<and> ip ! 10 = 0xff \<and> ip ! 11 = 0xff
      then Some (drop 12 ip)
      else None)"

definition To16 :: "IP \<Rightarrow> IP option" where
  "To16 ip =
     (if length ip = 4 then Some (v4InV6Prefix @ ip)
      else if length ip = 16 then Some ip
      else None)"

definition IP_Equal :: "IP \<Rightarrow> IP \<Rightarrow> bool" where
  "IP_Equal ip x =
     (if length ip = length x then ip = x
      else if length ip = 4 \<and> length x = 16 then take 12 x = v4InV6Prefix \<and> ip = drop 12 x
      else if length ip = 16 \<and> length x = 4 then take 12 ip = v4InV6Prefix \<and> drop 12 ip = x
      else False)"

subsection \<open>Pseudo-headers\<close>

record ipv4PseudoHeader =
  v4_Src :: "byte list"
  v4_Dst :: "byte list"
  v4_Zero :: byte
  v4_Protocol :: byte
  v4_VRRPLen :: uint16

record ipv6PseudoHeader =
  v6_Src :: "byte list"
  v6_Dst :: "byte list"
  v6_VRRPLen :: uint32
  v6_Zeros :: "byte list"
  v6_NextHeader :: byte

text \<open>\<open>copy(dst[:], src)\<close> into a zero-initialised array of \<open>n\<close> bytes.\<close>

definition copy_into :: "nat \<Rightarrow> byte list \<Rightarrow> byte list" where
  "copy_into n src = take n src @ replicate (n - length src) 0"

definition encode_v4 :: "ipv4PseudoHeader \<Rightarrow> byte list" where
  "encode_v4 h = v4_Src h @ v4_Dst h @ [v4_Zero h, v4_Protocol h] @ be16 (v4_VRRPLen h)"

definition encode_v6 :: "ipv6PseudoHeader \<Rightarrow> byte list" where
  "encode_v6 h = v6_Src h @ v6_Dst h @ be32 (v6_VRRPLen h) @ v6_Zeros h @ [v6_NextHeader h]"

text \<open>
  The first half of \<open>checksum\<close>: the bytes written to \<open>buf\<close> before the advertisement.
\<close>

definition pseudoHeader :: "IP \<Rightarrow> IP \<Rightarrow> error + byte list" where
  "pseudoHeader srcIP dstIP =
     (case (To4 srcIP, To4 dstIP) of
        (Some src, Some dst) \<Rightarrow>
          Inr (encode_v4 \<lparr>v4_Src = copy_into 4 src, v4_Dst = copy_into 4 dst, v4_Zero = 0,
                          v4_Protocol = vrrpPort, v4_VRRPLen = of_nat vrrpAdvertSize\<rparr>)
      | _ \<Rightarrow>
         (case (To16 srcIP, To16 dstIP) of
            (Some src, Some dst) \<Rightarrow>
              Inr (encode_v6 \<lparr>v6_Src = copy_into 16 src, v6_Dst = copy_into 16 dst,
                              v6_VRRPLen = of_nat vrrpAdvertSize, v6_Zeros = [0, 0, 0],
                              v6_NextHeader = vrrpPort\<rparr>)
          | _ \<Rightarrow> Inl NeedTwoAddresses))"

subsection \<open>The RFC 1071 checksum\<close>

text \<open>The first loop of \<open>ipChecksum\<close> and the odd trailing byte.\<close>

fun sumWords :: "byte list \<Rightarrow> uint32 \<Rightarrow> uint32" where
  "sumWords (b0 # b1 # b) sm = sumWords b (sm + (push_bit 8 (ucast b0) OR ucast b1))"
| "sumWords [b0] sm = sm + push_bit 8 (ucast b0)"
| "sumWords [] sm = sm"

text \<open>The second loop: \<open>for sum>>16 != 0 { sum = (sum & 0xffff) + (sum >> 16) }\<close>.\<close>

function foldCarries :: "uint32 \<Rightarrow> uint32" where
  "foldCarries sm =
     (if drop_bit 16 sm \<noteq> 0 then foldCarries ((sm AND 0xffff) + drop_bit 16 sm) else sm)"
  by pat_completeness auto

definition ipChecksum :: "byte list \<Rightarrow> uint16" where
  "ipChecksum b = ucast (NOT (foldCarries (sumWords b 0)))"

text \<open>
  \<open>checksum\<close>: the pseudo-header, then the advertisement as it is (the \<open>Checksum\<close> field
  included), then \<open>ipChecksum\<close> over the buffer. \<open>binary.Write\<close> of a fixed-size struct to
  a \<open>bytes.Buffer\<close> does not fail, so the only error is the one for addresses that are
  neither both IPv4 nor both convertible to 16 bytes.
\<close>

definition checksum :: "advertisement \<Rightarrow> IP \<Rightarrow> IP \<Rightarrow> error + uint16" where
  "checksum advert srcIP dstIP =
     (case pseudoHeader srcIP dstIP of
        Inl err \<Rightarrow> Inl err
      | Inr hdr \<Rightarrow> Inr (ipChecksum (hdr @ encode advert)))"

subsection \<open>Transport: reading packets\<close>

record packet =
  src :: IP
  dst :: IP
  ttl :: byte
  payload :: "byte list"

record ipHAConn =
  laddr :: IP
  raddr :: IP

datatype address_family = AF_INET | AF_INET6

definition af :: "ipHAConn \<Rightarrow> address_family" where
  "af c = (if To4 (laddr c) \<noteq> None then AF_INET else AF_INET6)"

record SocketControlMessage =
  scm_Level :: int
  scm_Type :: int
  scm_Data :: "byte list"

text \<open>The Linux values of the \<open>syscall\<close> constants the transport uses.\<close>

definition IPPROTO_IPV6 :: int where
  "IPPROTO_IPV6 = 41"

definition IPV6_2292HOPLIMIT :: int where
  "IPV6_2292HOPLIMIT = 8"

definition IPV6_2292PKTINFO :: int where
  "IPV6_2292PKTINFO = 2"

definition ENOPROTOOPT :: nat where
  "ENOPROTOOPT = 92"

definition EPROTO :: nat where
  "EPROTO = 71"

text \<open>
  What the receiving socket delivers to one call of \<open>receive\<close>: for \<open>recvConn.Read(b)\<close>
  an error or the \<open>n\<close> bytes read (\<open>b[:n]\<close>); for \<open>recvConn.ReadMsgIP(b, oob)\<close> an error
  or the bytes read, the sender's address and the result of
  \<open>syscall.ParseSocketControlMessage\<close> on the ancillary data.
\<close>

record sock_read =
  sock_Read :: "error + byte list"
  sock_ReadMsgIP :: "error + (byte list \<times> IP \<times> (error + SocketControlMessage list))"

definition readIPv4Packet :: "sock_read \<Rightarrow> error + packet" where
  "readIPv4Packet io =
     (case sock_Read io of
        Inl err \<Rightarrow> Inl err
      | Inr b \<Rightarrow>
          let n = length b in
          if n < 20 then Inl (PacketTooSmall n)
          else if drop_bit 4 (uint (b ! 0)) \<noteq> 4 then Inl NotIPv4
          else
            let hdrLen = nat (push_bit 2 (uint (b ! 0) AND 0x0f)) in
            if hdrLen > n then Inl (HeaderTooLong hdrLen n)
            else Inr \<lparr>src = [b ! 12, b ! 13, b ! 14, b ! 15],
                      dst = [b ! 16, b ! 17, b ! 18, b ! 19],
                      ttl = b ! 8,
                      payload = drop hdrLen b\<rparr>)"

text \<open>The loop of \<open>readIPv6Packet\<close> over the control messages.\<close>

fun scanControl ::
  "SocketControlMessage list \<Rightarrow> IP option \<Rightarrow> byte \<Rightarrow> bool \<Rightarrow> error + (IP option \<times> byte \<times> bool)"
where
  "scanControl [] dstIP hop haveTTL = Inr (dstIP, hop, haveTTL)"
| "scanControl (sc # scm) dstIP hop haveTTL =
     (if scm_Level sc \<noteq> IPPROTO_IPV6 then scanControl scm dstIP hop haveTTL
      else if scm_Type sc = IPV6_2292HOPLIMIT then
        (if length (scm_Data sc) = 0 then Inl InvalidHopLimit
         else scanControl scm dstIP (scm_Data sc ! 0) True)
      else if scm_Type sc = IPV6_2292PKTINFO then
        (if length (scm_Data sc) < 16 then Inl InvalidDestination
         else scanControl scm (Some (take 16 (scm_Data sc))) hop haveTTL)
      else scanControl scm dstIP hop haveTTL)"

definition readIPv6Packet :: "sock_read \<Rightarrow> error + packet" where
  "readIPv6Packet io =
     (case sock_ReadMsgIP io of
        Inl err \<Rightarrow> Inl err
      | Inr (b, remote, parsed) \<Rightarrow>
          (case parsed of
             Inl err \<Rightarrow> Inl err
           | Inr scm \<Rightarrow>
               (case scanControl scm None 0 False of
                  Inl err \<Rightarrow> Inl err
                | Inr (dstIP, hop, haveTTL) \<Rightarrow>
                    if \<not> haveTTL then Inl HopLimitNotFound
                    else (case dstIP of
                            None \<Rightarrow> Inl DestinationNotFound
                          | Some d \<Rightarrow> Inr \<lparr>src = remote, dst = d, ttl = hop, payload = b\<rparr>))))"

definition readPacket :: "ipHAConn \<Rightarrow> sock_read \<Rightarrow> error + packet" where
  "readPacket c io =
     (case af c of AF_INET \<Rightarrow> readIPv4Packet io | AF_INET6 \<Rightarrow> readIPv6Packet io)"

text \<open>
  \<open>receive\<close>: \<open>Inl err\<close> is \<open>(nil, err)\<close>, \<open>Inr None\<close> is \<open>(nil, nil)\<close> and
  \<open>Inr (Some advert)\<close> is \<open>(advert, nil)\<close>.
\<close>

definition receive :: "ipHAConn \<Rightarrow> sock_read \<Rightarrow> error + advertisement option" where
  "receive c io =
     (case readPacket c io of
        Inl err \<Rightarrow>
          (case err of
             OpError errno \<Rightarrow>
               if errno = ENOPROTOOPT \<or> errno = EPROTO then Inr None else Inl err
           | _ \<Rightarrow> Inl err)
      | Inr p \<Rightarrow>
          if length (payload p) \<noteq> vrrpAdvertSize then Inr None
          else
            (case decode (payload p) of
               Inl err \<Rightarrow> Inl err
             | Inr advert \<Rightarrow>
                 if IP_Equal (src p) (laddr c) then Inr None
                 else if ttl p \<noteq> 255 then Inr None
                 else
                   (case checksum advert (src p) (dst p) of
                      Inl err \<Rightarrow> Inr None
                    | Inr chksum \<Rightarrow> if chksum \<noteq> 0 then Inr None else Inr (Some advert))))"

subsection \<open>Transport: sending\<close>

text \<open>
  The outcomes of the two socket calls of \<open>send\<close>: \<open>SetWriteDeadline\<close> and \<open>WriteToIP\<close>
  (\<open>None\<close> is a \<open>nil\<close> error). The deadline itself, \<open>time.Now().Add(timeout)\<close>, only
  matters to these outcomes.
\<close>

record send_io =
  io_SetWriteDeadline :: "error option"
  io_WriteToIP :: "error option"

text \<open>
  \<open>send\<close> returns the error (or \<open>None\<close>), the advertisement record as the caller sees
  it after the call (the argument is a pointer), and the bytes handed to \<open>WriteToIP\<close>,
  if the call got that far.
\<close>

definition send ::
  "ipHAConn \<Rightarrow> advertisement \<Rightarrow> send_io \<Rightarrow> error option \<times> advertisement \<times> byte list option"
where
  "send c advert io =
     (case io_SetWriteDeadline io of
        Some err \<Rightarrow> (Some err, advert, None)
      | None \<Rightarrow>
          (case (if Checksum advert = 0
                 then (case checksum advert (laddr c) (raddr c) of
                         Inl err \<Rightarrow> Inl ChecksumFailed
                       | Inr chksum \<Rightarrow> Inr (advert\<lparr>Checksum := chksum\<rparr>))
                 else Inr advert) of
             Inl err \<Rightarrow> (Some err, advert, None)
           | Inr advert' \<Rightarrow>
               (case io_WriteToIP io of
                  Some err \<Rightarrow> (Some err, advert', Some (encode advert'))
                | None \<Rightarrow> (None, advert', Some (encode advert')))))"

section \<open>The node (\<open>vrrp/core.go\<close>)\<close>

text \<open>
  \<open>time.Duration\<close> is an \<open>int64\<close> count of nanoseconds: a 64-bit word read as two's
  complement, whose \<open>+\<close> and \<open>*\<close> wrap around and whose \<open>/\<close> truncates towards zero.
  \<open>time.Time\<close> is an instant; the clock readings \<open>time.Now()\<close> are arguments.
\<close>

type_synonym Duration = "64 word"
type_synonym Time = int

definition Millisecond :: Duration where
  "Millisecond = 1000000"

definition Second :: Duration where
  "Second = 1000 * Millisecond"

text \<open>The code divides durations by nonzero constants only.\<close>

definition duration_div :: "Duration \<Rightarrow> Duration \<Rightarrow> Duration" where
  "duration_div a b = word_of_int (sint a sdiv sint b)"

text \<open>
  Modelled from the spec: the package \<open>seesaw\<close> that declares \<open>HAState\<close>, \<open>HAStatus\<close>
  and \<open>HAConfig\<close> is not part of the sources. The states are the four that the code and
  the specification name, after \<open>HAUnknown\<close> for the zero value of the enumeration, in which
  the status of a node starts before \<open>NewNode\<close> sets it to BACKUP; the status record has the
  fields of section 3 of the specification; of \<open>HAConfig\<close> the node reads \<open>VRID\<close> and
  \<open>Priority\<close>.
\<close>

datatype HAState = HAUnknown | HABackup | HAError | HAMaster | HAShutdown

record HAStatus =
  State :: HAState
  Since :: Time
  Sent :: uint64
  Received :: uint64
  ReceivedQueued :: uint64
  Transitions :: uint64

text \<open>
  \<open>NodeConfig\<close>, with the fields the modelled functions read; the fields of the embedded
  \<open>HAConfig\<close> carry the prefix \<open>cfg\<close> because the advertisement has fields of the same
  names.
\<close>

record NodeConfig =
  cfg_VRID :: byte
  cfg_Priority :: byte
  MasterAdvertInterval :: Duration
  Preempt :: bool

text \<open>
  A buffered channel is its capacity and the queued values, oldest first. The unbuffered
  error channel is the list of errors whose senders wait for the run loop to take them.
\<close>

record 'a chan =
  chan_cap :: nat
  chan_buf :: "'a list"

definition make_chan :: "nat \<Rightarrow> 'a chan" where
  "make_chan k = \<lparr>chan_cap = k, chan_buf = []\<rparr>"

text \<open>A send inside \<open>select\<close> with a \<open>default\<close> case: \<open>None\<close> when the buffer is full.\<close>

definition chan_try_send :: "'a chan \<Rightarrow> 'a \<Rightarrow> 'a chan option" where
  "chan_try_send ch x =
     (if length (chan_buf ch) < chan_cap ch then Some (ch\<lparr>chan_buf := chan_buf ch @ [x]\<rparr>)
      else None)"

text \<open>A receive: \<open>None\<close> when nothing is queued (the case cannot fire).\<close>

definition chan_recv :: "'a chan \<Rightarrow> ('a \<times> 'a chan) option" where
  "chan_recv ch =
     (case chan_buf ch of [] \<Rightarrow> None | x # xs \<Rightarrow> Some (x, ch\<lparr>chan_buf := xs\<rparr>))"

text \<open>
  The node: the configuration it embeds and the fields that the modelled functions read or
  write. The connection, the engine, the send and receive counters and the two unbuffered
  hand-off channels are left out; a pending shutdown request is the \<open>select\<close> case
  \<open>SelShutdown\<close> below.
\<close>

record Node = NodeConfig +
  haStatus :: HAStatus
  masterDownInterval :: Duration
  lastMasterAdvertTime :: Time
  errChannel :: "error list"
  recvChannel :: "advertisement chan"

definition resetMasterDownInterval :: "Node \<Rightarrow> Duration \<Rightarrow> Node" where
  "resetMasterDownInterval n advertInterval =
     (let skewTime = duration_div (word_of_int (256 - uint (cfg_Priority n)) * advertInterval) 256;
          mdi = 3 * advertInterval + skewTime
      in if mdi \<noteq> masterDownInterval n then n\<lparr>masterDownInterval := mdi\<rparr> else n)"

definition setState :: "Node \<Rightarrow> HAState \<Rightarrow> Time \<Rightarrow> Node" where
  "setState n s now =
     (if State (haStatus n) \<noteq> s
      then n\<lparr>haStatus := (haStatus n)\<lparr>State := s, Since := now,
                                        Transitions := Transitions (haStatus n) + 1\<rparr>\<rparr>
      else n)"

definition NewNode :: "NodeConfig \<Rightarrow> Time \<Rightarrow> Node" where
  "NewNode cfg now =
     (let n = \<lparr>cfg_VRID = cfg_VRID cfg, cfg_Priority = cfg_Priority cfg,
               MasterAdvertInterval = MasterAdvertInterval cfg, Preempt = Preempt cfg,
               haStatus = \<lparr>State = HAUnknown, Since = 0, Sent = 0, Received = 0,
                           ReceivedQueued = 0, Transitions = 0\<rparr>,
               masterDownInterval = 0,
               lastMasterAdvertTime = now,
               errChannel = [],
               recvChannel = make_chan 20\<rparr>;
          n1 = setState n HABackup now
      in resetMasterDownInterval n1 (MasterAdvertInterval cfg))"

definition newAdvertisement :: "Node \<Rightarrow> advertisement" where
  "newAdvertisement n =
     \<lparr>VersionType = vrrpVersionType, VRID = cfg_VRID n, Priority = cfg_Priority n,
      CountIPAddrs = 0,
      AdvertInt = ucast (duration_div (duration_div (MasterAdvertInterval n) Millisecond) 10),
      Checksum = 0\<rparr>"

definition backupHandleAdvertisement :: "Node \<Rightarrow> Time \<Rightarrow> advertisement \<Rightarrow> HAState \<times> Node" where
  "backupHandleAdvertisement n now advert =
     (if VersionType advert \<noteq> vrrpVersionType then (HABackup, n)
      else if VRID advert \<noteq> cfg_VRID n then (HABackup, n)
      else if Priority advert = 0 then (HAMaster, n)
      else if Preempt n \<and> Priority advert < cfg_Priority n then (HAMaster, n)
      else
        (HABackup,
         (resetMasterDownInterval n (Millisecond * ucast (10 * AdvertInt advert)))
           \<lparr>lastMasterAdvertTime := now\<rparr>))"

text \<open>
  Which case of a \<open>select\<close> fires is an input. A case that cannot fire (nothing queued on
  its channel, or a case the \<open>select\<close> does not have) gives \<open>None\<close>.
\<close>

datatype select_case = SelRecv | SelShutdown | SelErr | SelTimeout

definition doMasterTasks :: "Node \<Rightarrow> Time \<Rightarrow> select_case \<Rightarrow> (HAState \<times> Node) option" where
  "doMasterTasks n now sel =
     (case sel of
        SelRecv \<Rightarrow>
          (case chan_recv (recvChannel n) of
             None \<Rightarrow> None
           | Some (advert, ch) \<Rightarrow>
               let n1 = n\<lparr>recvChannel := ch\<rparr> in
               if VersionType advert \<noteq> vrrpVersionType then Some (HAMaster, n1)
               else if VRID advert \<noteq> cfg_VRID n1 then Some (HAMaster, n1)
               else if Priority advert = cfg_Priority n1 then Some (HAMaster, n1)
               else if Priority advert > cfg_Priority n1
               then Some (HABackup, n1\<lparr>lastMasterAdvertTime := now\<rparr>)
               else Some (HAMaster, n1))
      | SelShutdown \<Rightarrow> Some (HAShutdown, n)
      | SelErr \<Rightarrow>
          (case errChannel n of
             [] \<Rightarrow> None
           | err # rest \<Rightarrow> Some (HAError, n\<lparr>errChannel := rest\<rparr>))
      | SelTimeout \<Rightarrow> None)"

definition doBackupTasks :: "Node \<Rightarrow> Time \<Rightarrow> select_case \<Rightarrow> (HAState \<times> Node) option" where
  "doBackupTasks n now sel =
     (case sel of
        SelRecv \<Rightarrow>
          (case chan_recv (recvChannel n) of
             None \<Rightarrow> None
           | Some (advert, ch) \<Rightarrow>
               Some (backupHandleAdvertisement (n\<lparr>recvChannel := ch\<rparr>) now advert))
      | SelShutdown \<Rightarrow> Some (HAShutdown, n)
      | SelErr \<Rightarrow>
          (case errChannel n of
             [] \<Rightarrow> None
           | err # rest \<Rightarrow> Some (HAError, n\<lparr>errChannel := rest\<rparr>))
      | SelTimeout \<Rightarrow>
          (case chan_recv (recvChannel n) of
             Some (advert, ch) \<Rightarrow>
               Some (backupHandleAdvertisement (n\<lparr>recvChannel := ch\<rparr>) now advert)
           | None \<Rightarrow> Some (HAMaster, n)))"

definition queueAdvertisement :: "Node \<Rightarrow> advertisement \<Rightarrow> Node" where
  "queueAdvertisement n advert =
     (case chan_try_send (recvChannel n) advert of
        Some ch \<Rightarrow> n\<lparr>recvChannel := ch\<rparr>
      | None \<Rightarrow> n\<lparr>errChannel := errChannel n @ [RecvChannelFull]\<rparr>)"

section \<open>Definitions that follow the specification's words\<close>

text \<open>
  The peer's advertised interval as the specification reads it: \<open>advert_int\<close> counts
  centiseconds, so the interval is that many times 10 ms.
\<close>

definition spec_advert_interval :: "uint16 \<Rightarrow> Duration" where
  "spec_advert_interval centis = 10 * Millisecond * ucast centis"

text \<open>
  The number of actual state changes in a run of \<open>setState\<close> calls that starts in state
  \<open>cur\<close>: a call counts when it asks for a state other than the current one.
\<close>

fun state_changes :: "HAState \<Rightarrow> HAState list \<Rightarrow> nat" where
  "state_changes cur [] = 0"
| "state_changes cur (s # ss) = (if s \<noteq> cur then 1 else 0) + state_changes s ss"

text \<open>A run of \<open>setState\<close> calls, each with the clock reading of its call.\<close>

fun setStates :: "Node \<Rightarrow> (HAState \<times> Time) list \<Rightarrow> Node" where
  "setStates n [] = n"
| "setStates n ((s, t) # calls) = setStates (setState n s t) calls"

section \<open>The checksum\<close>

subsection \<open>The carry fold\<close>

text \<open>
  The loop of \<open>foldCarries\<close> ends: while the sum has a bit above the low 16, a step makes
  it smaller.
\<close>

lemma fold_arith: "65536 \<le> (x::nat) \<Longrightarrow> x mod 65536 + x div 65536 < x"
proof -
  assume h: "65536 \<le> x"
  define q where "q = x div 65536"
  define r where "r = x mod 65536"
  have x: "x = 65536 * q + r" by (simp add: q_def r_def)
  have "1 \<le> q" using h by (simp add: q_def div_greater_zero_iff Suc_le_eq)
  then have "r + q < 65536 * q + r" by simp
  then show ?thesis using x by (simp add: q_def [symmetric] r_def [symmetric])
qed

lemma fold_step_unat:
  "unat ((sm AND 0xffff) + drop_bit 16 sm :: uint32) = unat sm mod 65536 + unat sm div 65536"
proof -
  have a: "sm AND 0xffff = sm mod 65536"
    using take_bit_eq_mask [of 16 sm] by (simp add: mask_eq_exp_minus_1 take_bit_eq_mod)
  have b: "unat (sm mod 65536) = unat sm mod 65536"
    by (simp add: unat_mod)
  have c: "unat (drop_bit 16 sm) = unat sm div 65536"
    by (simp add: drop_bit_eq_div unat_div)
  have d: "unat sm < 2 ^ 32" using unsigned_less [of sm] by simp
  have "unat sm mod 65536 + unat sm div 65536 < 2 ^ 32" using d by simp
  then have "unat (sm mod 65536 + drop_bit 16 sm) = unat (sm mod 65536) + unat (drop_bit 16 sm)"
    using b c by (simp add: unat_add_lem [THEN iffD1])
  then show ?thesis
    unfolding a using b c by simp
qed

lemma drop16_nonzero: "(drop_bit 16 (sm :: uint32) \<noteq> 0) = (65536 \<le> unat sm)"
proof -
  have "(drop_bit 16 sm = 0) = (unat (drop_bit 16 sm) = 0)" by (simp add: unat_eq_0)
  also have "\<dots> = (unat sm div 65536 = 0)" by (simp add: drop_bit_eq_div unat_div)
  also have "\<dots> = (unat sm < 65536)" by (simp add: div_eq_0_iff)
  finally show ?thesis by auto
qed

termination foldCarries
proof (relation "measure unat")
  show "wf (measure unat)" by simp
next
  fix sm :: uint32
  assume "drop_bit 16 sm \<noteq> 0"
  then have "65536 \<le> unat sm" by (simp add: drop16_nonzero)
  then have "unat sm mod 65536 + unat sm div 65536 < unat sm" by (rule fold_arith)
  then show "((sm AND 0xffff) + drop_bit 16 sm, sm) \<in> measure unat"
    by (simp add: fold_step_unat)
qed

declare foldCarries.simps [simp del]

lemma foldCarries_lt: "unat (foldCarries sm) < 65536"
proof (induction sm rule: foldCarries.induct)
  case (1 sm)
  show ?case
  proof (cases "drop_bit 16 sm \<noteq> 0")
    case True
    then show ?thesis using "1.IH" by (subst foldCarries.simps) simp
  next
    case False
    then have "unat sm < 65536" by (simp add: drop16_nonzero)
    then show ?thesis using False by (subst foldCarries.simps) simp
  qed
qed

lemma mod65535_step: "((x::nat) mod 65536 + x div 65536) mod 65535 = x mod 65535"
proof -
  have "x = 65536 * (x div 65536) + x mod 65536" by simp
  also have "\<dots> = 65535 * (x div 65536) + (x mod 65536 + x div 65536)" by simp
  finally have "x mod 65535 = (65535 * (x div 65536) + (x mod 65536 + x div 65536)) mod 65535"
    by simp
  then show ?thesis by (simp only: mod_mult_self4)
qed

lemma foldCarries_mod: "unat (foldCarries sm) mod 65535 = unat sm mod 65535"
proof (induction sm rule: foldCarries.induct)
  case (1 sm)
  show ?case
  proof (cases "drop_bit 16 sm \<noteq> 0")
    case True
    then have "unat (foldCarries sm) mod 65535
        = unat ((sm AND 0xffff) + drop_bit 16 sm) mod 65535"
      using "1.IH" by (subst foldCarries.simps) simp
    then show ?thesis by (simp only: fold_step_unat mod65535_step)
  next
    case False
    then show ?thesis by (subst foldCarries.simps) simp
  qed
qed

lemma foldCarries_zero: "(unat (foldCarries sm) = 0) = (unat sm = 0)"
proof (induction sm rule: foldCarries.induct)
  case (1 sm)
  show ?case
  proof (cases "drop_bit 16 sm \<noteq> 0")
    case True
    then have ge: "65536 \<le> unat sm" by (simp add: drop16_nonzero)
    then have "0 < unat sm div 65536" by (simp add: div_greater_zero_iff)
    then have nz: "unat ((sm AND 0xffff) + drop_bit 16 sm) \<noteq> 0"
      by (simp add: fold_step_unat)
    have "(unat (foldCarries sm) = 0) = (unat ((sm AND 0xffff) + drop_bit 16 sm) = 0)"
      using True "1.IH" by (subst foldCarries.simps) simp
    then show ?thesis using nz ge by simp
  next
    case False
    then show ?thesis by (subst foldCarries.simps) simp
  qed
qed


subsection \<open>The word sum\<close>

lemma sumWords_append:
  "even (length xs) \<Longrightarrow> sumWords (xs @ ys) sm = sumWords ys (sumWords xs sm)"
proof (induction xs arbitrary: sm rule: induct_list012)
  case (3 x y zs)
  then show ?case by simp
qed simp_all

lemma word16_le: "unat (push_bit 8 (ucast (b0::byte)) OR ucast (b1::byte) :: uint32) < 65536"
proof -
  have "take_bit 16 (push_bit 8 (ucast b0) OR ucast b1 :: uint32) = push_bit 8 (ucast b0) OR ucast b1"
    by (rule bit_word_eqI) (auto simp: bit_simps dest: bit_imp_le_length)
  then have "unat (push_bit 8 (ucast b0) OR ucast b1 :: uint32)
      = unat (take_bit 16 (push_bit 8 (ucast b0) OR ucast b1 :: uint32))" by simp
  also have "\<dots> = take_bit 16 (unat (push_bit 8 (ucast b0) OR ucast b1 :: uint32))"
    by (simp only: unsigned_take_bit_eq)
  also have "\<dots> < 2 ^ 16" by (rule take_bit_nat_less_exp)
  finally show ?thesis by simp
qed

lemma byte_hi_le: "unat (push_bit 8 (ucast (b0::byte)) :: uint32) < 65536"
  using word16_le [of b0 0] by simp

lemma unat_add_le32: "unat (a + b :: uint32) \<le> unat a + unat b"
  by (simp add: unat_word_ariths)

lemma sumWords_bound: "unat (sumWords xs sm) \<le> unat sm + 65535 * ((length xs + 1) div 2)"
proof (induction xs arbitrary: sm rule: induct_list012)
  case 1
  then show ?case by simp
next
  case (2 x)
  have "unat (sm + push_bit 8 (ucast x)) \<le> unat sm + unat (push_bit 8 (ucast x) :: uint32)"
    by (rule unat_add_le32)
  then show ?case using byte_hi_le [of x] by simp
next
  case (3 x y zs)
  have "unat (sumWords (x # y # zs) sm)
      \<le> unat (sm + (push_bit 8 (ucast x) OR ucast y)) + 65535 * ((length zs + 1) div 2)"
    using "3.IH"(1) [of "sm + (push_bit 8 (ucast x) OR ucast y)"] by simp
  moreover have "unat (sm + (push_bit 8 (ucast x) OR ucast y))
      \<le> unat sm + unat (push_bit 8 (ucast x) OR ucast y :: uint32)"
    by (rule unat_add_le32)
  ultimately show ?case using word16_le [of x y] by simp
qed

lemma be16_word:
  "(push_bit 8 (ucast (ucast (drop_bit 8 x) :: byte)) OR ucast (ucast x :: byte) :: uint32)
     = ucast (x :: uint16)"
  by (rule bit_word_eqI) (auto simp: bit_simps dest: bit_imp_le_length)

lemma sumWords_encode:
  "sumWords (encode a) sm =
     sm + (push_bit 8 (ucast (VersionType a)) OR ucast (VRID a))
        + (push_bit 8 (ucast (Priority a)) OR ucast (CountIPAddrs a))
        + ucast (AdvertInt a) + ucast (Checksum a)"
  by (simp add: encode_def be16_def be16_word)

lemma unat_not16:
  assumes "unat (x :: uint32) < 65536"
  shows "unat (ucast (NOT x) :: uint16) = 65535 - unat x"
proof -
  have a: "(ucast (NOT x) :: uint16) = NOT (ucast x)"
    by (rule bit_word_eqI) (auto simp: bit_simps)
  have b: "NOT (ucast x :: uint16) = (- 1) - ucast x"
    by (simp add: not_eq_complement)
  have c: "unat ((- 1) - (ucast x :: uint16)) = unat (- 1 :: uint16) - unat (ucast x :: uint16)"
    by (rule unat_sub) simp
  have d: "unat (ucast x :: uint16) = unat x"
    using assms by (simp add: unsigned_ucast_eq take_bit_eq_mod)
  have e: "unat (- 1 :: uint16) = 65535"
    by (simp add: unsigned_minus_1_eq_mask mask_eq_exp_minus_1)
  show ?thesis by (simp only: a b c d e)
qed

lemma checksum_settles:
  assumes ev: "even (length hdr)"
    and len: "length hdr \<le> 40"
    and c: "c = ipChecksum (hdr @ encode (a\<lparr>Checksum := 0\<rparr>))"
  shows "ipChecksum (hdr @ encode (a\<lparr>Checksum := c\<rparr>)) = 0"
proof -
  define S where "S = sumWords (hdr @ encode (a\<lparr>Checksum := 0\<rparr>)) 0"
  define T where "T = sumWords (hdr @ encode (a\<lparr>Checksum := c\<rparr>)) 0"
  have TS: "T = S + ucast c"
    by (simp add: T_def S_def sumWords_append [OF ev] sumWords_encode)
  have "length (hdr @ encode (a\<lparr>Checksum := 0\<rparr>)) \<le> 48"
    using len by (simp add: encode_def be16_def)
  then have "(length (hdr @ encode (a\<lparr>Checksum := 0\<rparr>)) + 1) div 2 \<le> 24" by simp
  then have "65535 * ((length (hdr @ encode (a\<lparr>Checksum := 0\<rparr>)) + 1) div 2) \<le> 65535 * 24"
    by (rule mult_le_mono2)
  then have Sb: "unat S \<le> 1572840"
    using sumWords_bound [of "hdr @ encode (a\<lparr>Checksum := 0\<rparr>)" 0]
    unfolding S_def by simp
  have fl: "unat (foldCarries S) < 65536" by (rule foldCarries_lt)
  have cu: "unat c = 65535 - unat (foldCarries S)"
    unfolding c ipChecksum_def S_def [symmetric] by (rule unat_not16 [OF fl])
  have c16: "unat c < 2 ^ 16" using unsigned_less [of c] by simp
  then have "unat c < 2 ^ 32" by simp
  then have uc: "unat (ucast c :: uint32) = unat c"
    by (simp only: unsigned_ucast_eq) (simp add: take_bit_nat_eq_self)
  have "unat S + unat (ucast c :: uint32) < 2 ^ 32" using Sb c16 uc by simp
  then have Tu: "unat T = unat S + unat c"
    unfolding TS using uc by (simp add: unat_add_lem [THEN iffD1])
  have Tpos: "unat T \<noteq> 0"
  proof
    assume "unat T = 0"
    then have "unat S = 0" and "unat c = 0" using Tu by simp_all
    then show False using cu foldCarries_zero [of S] by simp
  qed
  have "(unat S + (65535 - unat (foldCarries S))) mod 65535
      = (unat (foldCarries S) + (65535 - unat (foldCarries S))) mod 65535"
    using foldCarries_mod [of S] by (metis mod_add_left_eq)
  also have "\<dots> = 0" using fl by simp
  finally have Tmod: "unat T mod 65535 = 0" using Tu cu by simp
  have fT: "unat (foldCarries T) mod 65535 = 0" using Tmod foldCarries_mod [of T] by simp
  have fTlt: "unat (foldCarries T) < 65536" by (rule foldCarries_lt)
  have fTnz: "unat (foldCarries T) \<noteq> 0" using Tpos foldCarries_zero [of T] by simp
  have "unat (foldCarries T) = 65535"
  proof -
    obtain k where k: "unat (foldCarries T) = 65535 * k" using fT by (auto simp: mod_eq_0_iff_dvd)
    then have "k \<noteq> 0" using fTnz by auto
    moreover have "k < 2" using fTlt k by simp
    ultimately have "k = 1" by simp
    then show ?thesis using k by simp
  qed
  then have "unat (ucast (NOT (foldCarries T)) :: uint16) = 0"
    using unat_not16 [OF fTlt] by simp
  then show ?thesis unfolding ipChecksum_def T_def [symmetric] by (simp add: unat_eq_0)
qed

subsection \<open>Pseudo-headers have an even length\<close>

lemma pseudoHeader_length:
  assumes "pseudoHeader s d = Inr hdr"
  shows "length hdr = 12 \<or> length hdr = 40"
  using assms
  by (auto simp: pseudoHeader_def encode_v4_def encode_v6_def copy_into_def be16_def be32_def
      To4_def To16_def v4InV6Prefix_def
      split: option.splits if_splits)

lemma pseudoHeader_total:
  assumes "To16 s \<noteq> None" and "To16 d \<noteq> None"
  shows "\<exists>hdr. pseudoHeader s d = Inr hdr"
  using assms by (auto simp: pseudoHeader_def split: option.splits)

subsection \<open>Self-consistency\<close>

text \<open>
  Claim C1. For every advertisement \<open>a\<close> and every two addresses \<open>s\<close> and \<open>d\<close> that are
  IP addresses (4 or 16 bytes, which is when \<open>To16\<close> is not \<open>nil\<close>; two addresses of one
  family in particular): \<open>checksum\<close> of \<open>a\<close> with its \<open>Checksum\<close> field zeroed returns a
  value \<open>c\<close> without error, and \<open>checksum\<close> of \<open>a\<close> with \<open>Checksum\<close> set to \<open>c\<close>, that is
  the RFC 1071 checksum over the pseudo-header followed by the encoded advertisement, is 0.
\<close>

theorem checksum_self_consistent:
  assumes "To16 s \<noteq> None" and "To16 d \<noteq> None"
  shows "\<exists>c. checksum (a\<lparr>Checksum := 0\<rparr>) s d = Inr c
           \<and> checksum (a\<lparr>Checksum := c\<rparr>) s d = Inr 0"
proof -
  obtain hdr where h: "pseudoHeader s d = Inr hdr"
    using pseudoHeader_total [OF assms] by blast
  have l: "length hdr = 12 \<or> length hdr = 40" by (rule pseudoHeader_length [OF h])
  then have ev: "even (length hdr)" and le: "length hdr \<le> 40" by auto
  define c where "c = ipChecksum (hdr @ encode (a\<lparr>Checksum := 0\<rparr>))"
  have "ipChecksum (hdr @ encode (a\<lparr>Checksum := c\<rparr>)) = 0"
    by (rule checksum_settles [OF ev le c_def])
  then show ?thesis using h by (simp add: checksum_def c_def)
qed

theorem checksum_self_consistent_witness:
  "To16 [10, 0, 0, 1] \<noteq> None \<and> To16 [10, 0, 0, 2] \<noteq> None \<and>
   (\<exists>c. checksum \<lparr>VersionType = 0x31, VRID = 1, Priority = 100, CountIPAddrs = 0,
                   AdvertInt = 100, Checksum = 0\<rparr> [10, 0, 0, 1] [10, 0, 0, 2] = Inr c
      \<and> checksum \<lparr>VersionType = 0x31, VRID = 1, Priority = 100, CountIPAddrs = 0,
                   AdvertInt = 100, Checksum = c\<rparr> [10, 0, 0, 1] [10, 0, 0, 2] = Inr 0)"
proof -
  have s: "To16 [10, 0, 0, 1] \<noteq> None" by (simp add: To16_def)
  have d: "To16 [10, 0, 0, 2] \<noteq> None" by (simp add: To16_def)
  show ?thesis
    using s d
      checksum_self_consistent [OF s d,
        of "\<lparr>VersionType = 0x31, VRID = 1, Priority = 100, CountIPAddrs = 0,
             AdvertInt = 100, Checksum = 0\<rparr>"]
    by simp
qed

section \<open>The master-down interval\<close>

lemma sint_in_range:
  "- (2 ^ 63) \<le> x \<Longrightarrow> x < 2 ^ 63 \<Longrightarrow> sint (word_of_int x :: Duration) = x"
  by (simp add: sint_sbintrunc' signed_take_bit_int_eq_self)

lemma sdiv_nonneg: "0 \<le> (x::int) \<Longrightarrow> x sdiv 256 = x div 256"
  by (cases "x = 0") (simp_all add: signed_divide_int_def)

lemma mdi_value:
  assumes lo: "0 \<le> sint I" and hi: "sint I < 2 ^ 55"
  shows "sint (3 * I + duration_div (word_of_int (256 - uint p) * I) 256)
           = 3 * sint I + ((256 - uint (p :: byte)) * sint I) div 256"
proof -
  define k where "k = 256 - uint p"
  define i where "i = sint I"
  have p0: "0 \<le> uint p" by simp
  have p1: "uint p < 256" using uint_bounded [of p] by simp
  have k1: "1 \<le> k" and k2: "k \<le> 256" using p0 p1 by (simp_all add: k_def)
  have I: "I = word_of_int i" by (simp add: i_def)
  have i0: "0 \<le> i" and i1: "i < 2 ^ 55" using lo hi by (simp_all add: i_def)
  have ki0: "0 \<le> k * i" using k1 i0 by simp
  have "k * i \<le> 256 * i" using k2 i0 by (rule mult_right_mono)
  then have ki1: "k * i < 2 ^ 63" using i1 by simp
  have prod: "sint (word_of_int k * I :: Duration) = k * i"
    unfolding I using ki0 ki1 by (simp flip: of_int_mult add: sint_in_range)
  have s256: "sint (256 :: Duration) = 256" by simp
  have q0: "0 \<le> (k * i) div 256" using ki0 by simp
  have q1: "(k * i) div 256 \<le> i"
  proof -
    have "(k * i) div 256 \<le> (256 * i) div 256"
      using \<open>k * i \<le> 256 * i\<close> by (rule zdiv_mono1) simp
    then show ?thesis by simp
  qed
  have skew: "duration_div (word_of_int k * I) 256 = word_of_int ((k * i) div 256)"
    by (simp only: duration_div_def prod s256 sdiv_nonneg [OF ki0])
  have "3 * I + word_of_int ((k * i) div 256) = (word_of_int (3 * i + (k * i) div 256) :: Duration)"
    unfolding I by simp
  moreover have "sint (word_of_int (3 * i + (k * i) div 256) :: Duration) = 3 * i + (k * i) div 256"
    using q0 q1 i0 i1 by (intro sint_in_range) simp_all
  ultimately show ?thesis
    unfolding skew k_def [symmetric] i_def [symmetric] by simp
qed

lemma vrrpVersionType_value: "vrrpVersionType = 0x31"
  by (simp add: vrrpVersionType_def vrrpVersion_def vrrpAdvertType_def)

lemma resetMasterDownInterval_value:
  "masterDownInterval (resetMasterDownInterval n I)
     = 3 * I + duration_div (word_of_int (256 - uint (cfg_Priority n)) * I) 256"
  by (simp add: resetMasterDownInterval_def Let_def)

lemma uint_le_of_unat: "unat (x :: 'a::len word) \<le> k \<Longrightarrow> uint x \<le> int k"
  unfolding uint_nat by (simp only: of_nat_le_iff)

lemma advert_interval_value:
  assumes "unat (x :: uint16) \<le> 6553"
  shows "sint (Millisecond * ucast (10 * x) :: Duration) = 10000000 * uint x"
proof -
  have un: "uint x = int (unat x)" by (rule uint_nat)
  have u: "uint x \<le> 6553" using uint_le_of_unat [OF assms] by simp
  have "unat (10 * x) = (10 * unat x) mod 2 ^ 16"
    by (simp add: unat_word_ariths)
  also have "\<dots> = 10 * unat x" using assms by simp
  finally have m: "unat (10 * x) = 10 * unat x" .
  have "uint (10 * x) = int (unat (10 * x))" by (rule uint_nat)
  then have "uint (10 * x) = 10 * uint x"
    by (simp only: m un)
  then have e: "uint (10 * x) = 10 * uint x" .
  have "(ucast (10 * x) :: Duration) = word_of_int (uint (10 * x))" by (rule ucast_eq)
  then have c: "(ucast (10 * x) :: Duration) = word_of_int (10 * uint x)" by (simp only: e)
  have "(Millisecond * word_of_int (10 * uint x) :: Duration) = word_of_int (10000000 * uint x)"
    by (simp add: Millisecond_def)
  then have "(Millisecond * ucast (10 * x) :: Duration) = word_of_int (10000000 * uint x)"
    by (simp only: c)
  moreover have "sint (word_of_int (10000000 * uint x) :: Duration) = 10000000 * uint x"
  proof (rule sint_in_range)
    have "(0::int) \<le> 10000000 * uint x" by simp
    moreover have "- (2 ^ 63) \<le> (0::int)" by simp
    ultimately show "- (2 ^ 63) \<le> 10000000 * uint x" by (rule order_trans [rotated])
    show "10000000 * uint x < 2 ^ 63" using u by simp
  qed
  ultimately show ?thesis by simp
qed

text \<open>
  The order of the checks in BACKUP state: a wrong \<open>version_type\<close> or VRID changes nothing;
  then priority 0 gives MASTER; then preemption against a lower priority gives MASTER;
  whatever remains resets the master-down interval, records the time and stays BACKUP.
\<close>

lemma backupHandleAdvertisement_order:
  "backupHandleAdvertisement n now a =
     (if VersionType a \<noteq> 0x31 \<or> VRID a \<noteq> cfg_VRID n then (HABackup, n)
      else if Priority a = 0 then (HAMaster, n)
      else if Preempt n \<and> Priority a < cfg_Priority n then (HAMaster, n)
      else (HABackup,
            (resetMasterDownInterval n (Millisecond * ucast (10 * AdvertInt a)))
              \<lparr>lastMasterAdvertTime := now\<rparr>))"
  by (simp add: backupHandleAdvertisement_def vrrpVersionType_value)

lemma NewNode_config:
  "cfg_VRID (NewNode cfg now) = cfg_VRID cfg"
  "cfg_Priority (NewNode cfg now) = cfg_Priority cfg"
  "MasterAdvertInterval (NewNode cfg now) = MasterAdvertInterval cfg"
  "Preempt (NewNode cfg now) = Preempt cfg"
  "lastMasterAdvertTime (NewNode cfg now) = now"
  by (simp_all add: NewNode_def resetMasterDownInterval_def setState_def Let_def)

lemma NewNode_haStatus:
  "haStatus (NewNode cfg now) = \<lparr>State = HABackup, Since = now, Sent = 0, Received = 0,
                                   ReceivedQueued = 0, Transitions = 1\<rparr>"
  by (simp add: NewNode_def resetMasterDownInterval_def setState_def Let_def)

lemma NewNode_channels:
  "recvChannel (NewNode cfg now) = \<lparr>chan_cap = 20, chan_buf = []\<rparr>"
  "errChannel (NewNode cfg now) = []"
  by (simp_all add: NewNode_def resetMasterDownInterval_def setState_def Let_def make_chan_def)

lemma NewNode_masterDownInterval:
  "masterDownInterval (NewNode cfg now)
     = 3 * MasterAdvertInterval cfg
       + duration_div (word_of_int (256 - uint (cfg_Priority cfg)) * MasterAdvertInterval cfg) 256"
  by (simp add: NewNode_def resetMasterDownInterval_value setState_def Let_def)

text \<open>
  The example of the specification: a BACKUP node of priority 150 that receives priority
  100 becomes MASTER with preemption and stays BACKUP without.
\<close>

lemma backupHandleAdvertisement_preempt:
  "fst (backupHandleAdvertisement
          (NewNode \<lparr>cfg_VRID = 1, cfg_Priority = 150, MasterAdvertInterval = Second,
                    Preempt = True\<rparr> 0) 5
          \<lparr>VersionType = 0x31, VRID = 1, Priority = 100, CountIPAddrs = 0, AdvertInt = 100,
           Checksum = 0\<rparr>) = HAMaster"
  "fst (backupHandleAdvertisement
          (NewNode \<lparr>cfg_VRID = 1, cfg_Priority = 150, MasterAdvertInterval = Second,
                    Preempt = False\<rparr> 0) 5
          \<lparr>VersionType = 0x31, VRID = 1, Priority = 100, CountIPAddrs = 0, AdvertInt = 100,
           Checksum = 0\<rparr>) = HABackup"
  by (simp_all add: backupHandleAdvertisement_order NewNode_config)

text \<open>
  Claim C4, as amended. For every priority \<open>p\<close> and every advertisement interval \<open>I\<close> with
  \<open>0 \<le> I < 2 ^ 55\<close> ns (the range in which the \<open>int64\<close> arithmetic of \<open>time.Duration\<close>
  does not wrap), \<open>resetMasterDownInterval\<close> sets the master-down interval to
  \<open>3 \<cdot> I + ((256 - p) \<cdot> I) / 256\<close>, in exact integer arithmetic on nanoseconds. In BACKUP,
  an advertisement that passes the four checks and whose \<open>advert_int\<close> is at most 6553
  recomputes the interval by this formula from \<open>I = advert_int \<times> 10 ms\<close>. A new node has
  the interval of this formula for its configured \<open>MasterAdvertInterval\<close>.
\<close>

theorem masterDownInterval_formula:
  "(0 \<le> sint I \<and> sint I < 2 ^ 55 \<longrightarrow>
      sint (masterDownInterval (resetMasterDownInterval n I))
        = 3 * sint I + ((256 - uint (cfg_Priority n)) * sint I) div 256)
   \<and> (VersionType a = 0x31 \<and> VRID a = cfg_VRID n \<and> Priority a \<noteq> 0
        \<and> \<not> (Preempt n \<and> Priority a < cfg_Priority n) \<and> unat (AdvertInt a) \<le> 6553 \<longrightarrow>
      sint (masterDownInterval (snd (backupHandleAdvertisement n now a)))
        = 3 * (10000000 * uint (AdvertInt a))
          + ((256 - uint (cfg_Priority n)) * (10000000 * uint (AdvertInt a))) div 256)
   \<and> (0 \<le> sint (MasterAdvertInterval cfg) \<and> sint (MasterAdvertInterval cfg) < 2 ^ 55 \<longrightarrow>
      sint (masterDownInterval (NewNode cfg now))
        = 3 * sint (MasterAdvertInterval cfg)
          + ((256 - uint (cfg_Priority cfg)) * sint (MasterAdvertInterval cfg)) div 256)"
proof (intro conjI impI)
  assume "0 \<le> sint (MasterAdvertInterval cfg) \<and> sint (MasterAdvertInterval cfg) < 2 ^ 55"
  then show "sint (masterDownInterval (NewNode cfg now))
        = 3 * sint (MasterAdvertInterval cfg)
          + ((256 - uint (cfg_Priority cfg)) * sint (MasterAdvertInterval cfg)) div 256"
    by (simp only: NewNode_masterDownInterval mdi_value)
next
  assume "0 \<le> sint I \<and> sint I < 2 ^ 55"
  then show "sint (masterDownInterval (resetMasterDownInterval n I))
        = 3 * sint I + ((256 - uint (cfg_Priority n)) * sint I) div 256"
    by (simp only: resetMasterDownInterval_value mdi_value)
next
  assume h: "VersionType a = 0x31 \<and> VRID a = cfg_VRID n \<and> Priority a \<noteq> 0
        \<and> \<not> (Preempt n \<and> Priority a < cfg_Priority n) \<and> unat (AdvertInt a) \<le> 6553"
  define J :: Duration where "J = Millisecond * ucast (10 * AdvertInt a)"
  have J: "sint J = 10000000 * uint (AdvertInt a)"
    unfolding J_def using h by (intro advert_interval_value) simp
  have "unat (AdvertInt a) \<le> 6553" using h by simp
  then have "uint (AdvertInt a) \<le> 6553" using uint_le_of_unat [of "AdvertInt a" 6553] by simp
  then have J1: "sint J < 2 ^ 55" using J by simp
  have J0: "0 \<le> sint J" using J by simp
  have "masterDownInterval (snd (backupHandleAdvertisement n now a))
      = masterDownInterval (resetMasterDownInterval n J)"
    using h by (auto simp: backupHandleAdvertisement_order J_def)
  then show "sint (masterDownInterval (snd (backupHandleAdvertisement n now a)))
        = 3 * (10000000 * uint (AdvertInt a))
          + ((256 - uint (cfg_Priority n)) * (10000000 * uint (AdvertInt a))) div 256"
    using mdi_value [OF J0 J1, of "cfg_Priority n"]
    by (simp only: resetMasterDownInterval_value J)
qed

theorem masterDownInterval_formula_witness:
  "0 \<le> sint Second \<and> sint Second < 2 ^ 55
   \<and> sint (masterDownInterval (resetMasterDownInterval
        (NewNode \<lparr>cfg_VRID = 1, cfg_Priority = 100, MasterAdvertInterval = Second,
                  Preempt = False\<rparr> 0) Second)) = 3609375000
   \<and> unat (AdvertInt \<lparr>VersionType = 0x31, VRID = 1, Priority = 200, CountIPAddrs = 0,
                        AdvertInt = 200, Checksum = 0\<rparr>) \<le> 6553
   \<and> sint (masterDownInterval (snd (backupHandleAdvertisement
        (NewNode \<lparr>cfg_VRID = 1, cfg_Priority = 100, MasterAdvertInterval = Second,
                  Preempt = False\<rparr> 0) 5
        \<lparr>VersionType = 0x31, VRID = 1, Priority = 200, CountIPAddrs = 0, AdvertInt = 200,
         Checksum = 0\<rparr>))) = 7218750000
   \<and> sint (masterDownInterval (NewNode \<lparr>cfg_VRID = 1, cfg_Priority = 150,
        MasterAdvertInterval = Second, Preempt = False\<rparr> 5)) = 3414062500"
  using masterDownInterval_formula
    [of Second
        "NewNode \<lparr>cfg_VRID = 1, cfg_Priority = 100, MasterAdvertInterval = Second,
                  Preempt = False\<rparr> 0"
        "\<lparr>VersionType = 0x31, VRID = 1, Priority = 200, CountIPAddrs = 0, AdvertInt = 200,
          Checksum = 0\<rparr>" 5
        "\<lparr>cfg_VRID = 1, cfg_Priority = 150, MasterAdvertInterval = Second,
          Preempt = False\<rparr>"]
  by (simp add: NewNode_config Second_def Millisecond_def)

text \<open>
  The claim as stated, for every interval and every advertisement, fails at priority 0 and
  \<open>I = 2 ^ 55\<close> ns, where \<open>(256 - p) \<cdot> I\<close> wraps around in \<open>int64\<close>, and at
  \<open>advert_int = 6554\<close>, where the interval is not \<open>advert_int \<times> 10 ms\<close>.
\<close>

theorem masterDownInterval_formula_counterexample:
  "sint (masterDownInterval (resetMasterDownInterval
           (NewNode \<lparr>cfg_VRID = 1, cfg_Priority = 0, MasterAdvertInterval = Second,
                     Preempt = False\<rparr> 0) (2 ^ 55)))
     \<noteq> 3 * sint (2 ^ 55 :: Duration)
         + ((256 - uint (0 :: byte)) * sint (2 ^ 55 :: Duration)) div 256
   \<and> sint (masterDownInterval (snd (backupHandleAdvertisement
        (NewNode \<lparr>cfg_VRID = 1, cfg_Priority = 100, MasterAdvertInterval = Second,
                  Preempt = False\<rparr> 0) 5
        \<lparr>VersionType = 0x31, VRID = 1, Priority = 200, CountIPAddrs = 0, AdvertInt = 6554,
         Checksum = 0\<rparr>)))
     \<noteq> 3 * (10000000 * uint (6554 :: uint16))
         + ((256 - uint (100 :: byte)) * (10000000 * uint (6554 :: uint16))) div 256"
  by (simp add: resetMasterDownInterval_value duration_div_def signed_divide_int_def
      NewNode_config backupHandleAdvertisement_order Millisecond_def)

text \<open>
  Claim C5, as amended. For priority 100 and an advertisement interval of 1 s the computed
  master-down interval is 3 609 375 000 ns, that is 3609.375 ms, which integer division
  by a millisecond makes 3609 ms.
\<close>

theorem masterDownInterval_spot_check:
  "masterDownInterval (resetMasterDownInterval (n\<lparr>cfg_Priority := 100\<rparr>) Second) = 3609375000
   \<and> duration_div
        (masterDownInterval (resetMasterDownInterval (n\<lparr>cfg_Priority := 100\<rparr>) Second))
        Millisecond = 3609
   \<and> masterDownInterval (NewNode \<lparr>cfg_VRID = v, cfg_Priority = 100,
        MasterAdvertInterval = Second, Preempt = pe\<rparr> now) = 3609375000"
  by (simp add: resetMasterDownInterval_value NewNode_masterDownInterval duration_div_def
      signed_divide_int_def Second_def Millisecond_def)

text \<open>The value of the claim as stated, 1609.375 ms (1609 ms), is not what is computed.\<close>

theorem masterDownInterval_spot_check_counterexample:
  "masterDownInterval (NewNode \<lparr>cfg_VRID = 1, cfg_Priority = 100,
        MasterAdvertInterval = Second, Preempt = False\<rparr> 0) \<noteq> 1609375000
   \<and> duration_div (masterDownInterval (NewNode \<lparr>cfg_VRID = 1, cfg_Priority = 100,
        MasterAdvertInterval = Second, Preempt = False\<rparr> 0)) Millisecond \<noteq> 1609"
  by (simp add: NewNode_masterDownInterval duration_div_def signed_divide_int_def
      Second_def Millisecond_def)

text \<open>
  Claim C2, at the failing input. A BACKUP node of priority 100 without preemption handles
  an advertisement of its own VRID with priority 200 and \<open>advert_int = 6554\<close> (65.54 s).
  The product \<open>10 * advert.AdvertInt\<close> is computed in \<open>uint16\<close> and wraps to 4, so the
  node stays BACKUP with a master-down interval of 14 437 500 ns, computed from 4 ms; the
  interval computed from 65.54 s is 236 558 437 500 ns.
\<close>

theorem backupHandleAdvertisement_advert_int_wraps:
  "backupHandleAdvertisement
      (NewNode \<lparr>cfg_VRID = 1, cfg_Priority = 100, MasterAdvertInterval = Second,
                Preempt = False\<rparr> 0) 5
      \<lparr>VersionType = 0x31, VRID = 1, Priority = 200, CountIPAddrs = 0, AdvertInt = 6554,
       Checksum = 0\<rparr>
     = (HABackup,
        (NewNode \<lparr>cfg_VRID = 1, cfg_Priority = 100, MasterAdvertInterval = Second,
                  Preempt = False\<rparr> 0)
          \<lparr>masterDownInterval := 14437500, lastMasterAdvertTime := 5\<rparr>)
   \<and> 10 * AdvertInt \<lparr>VersionType = 0x31, VRID = 1, Priority = 200, CountIPAddrs = 0,
                        AdvertInt = 6554, Checksum = 0\<rparr> = 4
   \<and> masterDownInterval (resetMasterDownInterval
          (NewNode \<lparr>cfg_VRID = 1, cfg_Priority = 100, MasterAdvertInterval = Second,
                    Preempt = False\<rparr> 0) (spec_advert_interval 6554)) = 236558437500"
  by (simp add: backupHandleAdvertisement_order resetMasterDownInterval_def Let_def
      duration_div_def signed_divide_int_def NewNode_def setState_def make_chan_def
      Second_def Millisecond_def spec_advert_interval_def)

section \<open>Advertisements in MASTER state\<close>

text \<open>
  Claim C3. In MASTER state, when the \<open>select\<close> of \<open>doMasterTasks\<close> receives the
  advertisement \<open>a\<close> at the head of the receive queue: a wrong \<open>version_type\<close> (not
  \<open>0x31\<close>) or a wrong VRID returns MASTER; a priority equal to the node's own returns
  MASTER; a priority strictly greater sets \<open>lastMasterAdvertTime\<close> to the current time and
  returns BACKUP; a priority strictly less returns MASTER. Apart from the dequeue, nothing
  else of the node changes.
\<close>

theorem doMasterTasks_advertisement:
  assumes "chan_recv (recvChannel n) = Some (a, ch)"
  shows "(VersionType a \<noteq> 0x31 \<or> VRID a \<noteq> cfg_VRID n \<longrightarrow>
            doMasterTasks n now SelRecv = Some (HAMaster, n\<lparr>recvChannel := ch\<rparr>))
       \<and> (VersionType a = 0x31 \<and> VRID a = cfg_VRID n \<and> Priority a = cfg_Priority n \<longrightarrow>
            doMasterTasks n now SelRecv = Some (HAMaster, n\<lparr>recvChannel := ch\<rparr>))
       \<and> (VersionType a = 0x31 \<and> VRID a = cfg_VRID n \<and> Priority a > cfg_Priority n \<longrightarrow>
            doMasterTasks n now SelRecv
              = Some (HABackup, n\<lparr>recvChannel := ch, lastMasterAdvertTime := now\<rparr>))
       \<and> (VersionType a = 0x31 \<and> VRID a = cfg_VRID n \<and> Priority a < cfg_Priority n \<longrightarrow>
            doMasterTasks n now SelRecv = Some (HAMaster, n\<lparr>recvChannel := ch\<rparr>))"
  using assms by (auto simp: doMasterTasks_def vrrpVersionType_value Let_def)

theorem doMasterTasks_advertisement_witness:
  "chan_recv (recvChannel ((NewNode \<lparr>cfg_VRID = 1, cfg_Priority = 100,
        MasterAdvertInterval = Second, Preempt = False\<rparr> 0)
        \<lparr>recvChannel := \<lparr>chan_cap = 20, chan_buf =
          [\<lparr>VersionType = 0x31, VRID = 1, Priority = 150, CountIPAddrs = 0, AdvertInt = 100,
            Checksum = 0\<rparr>]\<rparr>\<rparr>))
     = Some (\<lparr>VersionType = 0x31, VRID = 1, Priority = 150, CountIPAddrs = 0,
              AdvertInt = 100, Checksum = 0\<rparr>, \<lparr>chan_cap = 20, chan_buf = []\<rparr>)
   \<and> doMasterTasks ((NewNode \<lparr>cfg_VRID = 1, cfg_Priority = 100,
        MasterAdvertInterval = Second, Preempt = False\<rparr> 0)
        \<lparr>recvChannel := \<lparr>chan_cap = 20, chan_buf =
          [\<lparr>VersionType = 0x31, VRID = 1, Priority = 150, CountIPAddrs = 0, AdvertInt = 100,
            Checksum = 0\<rparr>]\<rparr>\<rparr>) 9 SelRecv
     = Some (HABackup, (NewNode \<lparr>cfg_VRID = 1, cfg_Priority = 100,
        MasterAdvertInterval = Second, Preempt = False\<rparr> 0)
        \<lparr>recvChannel := \<lparr>chan_cap = 20, chan_buf = []\<rparr>, lastMasterAdvertTime := 9\<rparr>)
   \<and> doMasterTasks ((NewNode \<lparr>cfg_VRID = 1, cfg_Priority = 100,
        MasterAdvertInterval = Second, Preempt = False\<rparr> 0)
        \<lparr>recvChannel := \<lparr>chan_cap = 20, chan_buf =
          [\<lparr>VersionType = 0x31, VRID = 1, Priority = 50, CountIPAddrs = 0, AdvertInt = 100,
            Checksum = 0\<rparr>]\<rparr>\<rparr>) 9 SelRecv
     = Some (HAMaster, (NewNode \<lparr>cfg_VRID = 1, cfg_Priority = 100,
        MasterAdvertInterval = Second, Preempt = False\<rparr> 0)
        \<lparr>recvChannel := \<lparr>chan_cap = 20, chan_buf = []\<rparr>\<rparr>)
   \<and> doMasterTasks ((NewNode \<lparr>cfg_VRID = 1, cfg_Priority = 100,
        MasterAdvertInterval = Second, Preempt = False\<rparr> 0)
        \<lparr>recvChannel := \<lparr>chan_cap = 20, chan_buf =
          [\<lparr>VersionType = 0x31, VRID = 1, Priority = 100, CountIPAddrs = 0, AdvertInt = 100,
            Checksum = 0\<rparr>]\<rparr>\<rparr>) 9 SelRecv
     = Some (HAMaster, (NewNode \<lparr>cfg_VRID = 1, cfg_Priority = 100,
        MasterAdvertInterval = Second, Preempt = False\<rparr> 0)
        \<lparr>recvChannel := \<lparr>chan_cap = 20, chan_buf = []\<rparr>\<rparr>)
   \<and> doMasterTasks ((NewNode \<lparr>cfg_VRID = 1, cfg_Priority = 100,
        MasterAdvertInterval = Second, Preempt = False\<rparr> 0)
        \<lparr>recvChannel := \<lparr>chan_cap = 20, chan_buf =
          [\<lparr>VersionType = 0x31, VRID = 2, Priority = 150, CountIPAddrs = 0, AdvertInt = 100,
            Checksum = 0\<rparr>]\<rparr>\<rparr>) 9 SelRecv
     = Some (HAMaster, (NewNode \<lparr>cfg_VRID = 1, cfg_Priority = 100,
        MasterAdvertInterval = Second, Preempt = False\<rparr> 0)
        \<lparr>recvChannel := \<lparr>chan_cap = 20, chan_buf = []\<rparr>\<rparr>)"
proof -
  let ?N = "NewNode \<lparr>cfg_VRID = 1, cfg_Priority = 100, MasterAdvertInterval = Second,
                     Preempt = False\<rparr> 0"
  let ?ch = "\<lparr>chan_cap = 20, chan_buf = []\<rparr> :: advertisement chan"
  have r: "\<And>a. chan_recv (recvChannel (?N\<lparr>recvChannel := \<lparr>chan_cap = 20, chan_buf = [a]\<rparr>\<rparr>))
      = Some (a, ?ch)"
    by (simp add: chan_recv_def)
  show ?thesis
    using r
      doMasterTasks_advertisement [OF r, of
        "\<lparr>VersionType = 0x31, VRID = 1, Priority = 150, CountIPAddrs = 0, AdvertInt = 100,
          Checksum = 0\<rparr>" 9]
      doMasterTasks_advertisement [OF r, of
        "\<lparr>VersionType = 0x31, VRID = 1, Priority = 50, CountIPAddrs = 0, AdvertInt = 100,
          Checksum = 0\<rparr>" 9]
      doMasterTasks_advertisement [OF r, of
        "\<lparr>VersionType = 0x31, VRID = 1, Priority = 100, CountIPAddrs = 0, AdvertInt = 100,
          Checksum = 0\<rparr>" 9]
      doMasterTasks_advertisement [OF r, of
        "\<lparr>VersionType = 0x31, VRID = 2, Priority = 150, CountIPAddrs = 0, AdvertInt = 100,
          Checksum = 0\<rparr>" 9]
    by (simp add: NewNode_config)
qed

section \<open>The status record\<close>

lemma setState_State: "State (haStatus (setState n s now)) = s"
  by (simp add: setState_def)

lemma setStates_Transitions:
  "Transitions (haStatus (setStates n calls))
     = Transitions (haStatus n) + of_nat (state_changes (State (haStatus n)) (map fst calls))"
proof (induction calls arbitrary: n)
  case Nil
  then show ?case by simp
next
  case (Cons c calls)
  obtain s t where c: "c = (s, t)" by (cases c)
  have "Transitions (haStatus (setStates n (c # calls)))
      = Transitions (haStatus (setState n s t)) + of_nat (state_changes s (map fst calls))"
    using Cons.IH [of "setState n s t"] by (simp add: c setState_State)
  moreover have "Transitions (haStatus (setState n s t))
      = Transitions (haStatus n) + (if s \<noteq> State (haStatus n) then 1 else 0)"
    by (auto simp: setState_def)
  ultimately show ?case by (simp add: c)
qed

text \<open>
  Claim C10. \<open>setState\<close> with the state the node is already in changes nothing (so
  \<open>State\<close>, \<open>Since\<close> and \<open>Transitions\<close> keep their values); with a different state it
  sets \<open>State\<close>, sets \<open>Since\<close> to the current time and adds exactly 1 to
  \<open>Transitions\<close>; calling it again with the same state changes nothing more. Hence after
  any run of calls \<open>Transitions\<close> has grown by the number of actual state changes (as a
  64-bit counter, and as a number as long as the count stays below \<open>2 ^ 64\<close>).
\<close>

theorem setState_counts_changes:
  "(State (haStatus n) = s \<longrightarrow> setState n s now = n)
   \<and> (State (haStatus n) \<noteq> s \<longrightarrow>
        haStatus (setState n s now)
          = (haStatus n)\<lparr>State := s, Since := now, Transitions := Transitions (haStatus n) + 1\<rparr>)
   \<and> setState (setState n s now) s now' = setState n s now
   \<and> Transitions (haStatus (setStates n calls))
        = Transitions (haStatus n) + of_nat (state_changes (State (haStatus n)) (map fst calls))
   \<and> (unat (Transitions (haStatus n)) + state_changes (State (haStatus n)) (map fst calls) < 2 ^ 64
        \<longrightarrow> unat (Transitions (haStatus (setStates n calls)))
              = unat (Transitions (haStatus n)) + state_changes (State (haStatus n)) (map fst calls))"
proof (intro conjI impI)
  show "setState (setState n s now) s now' = setState n s now"
    by (simp add: setState_def)
next
  show "Transitions (haStatus (setStates n calls))
        = Transitions (haStatus n) + of_nat (state_changes (State (haStatus n)) (map fst calls))"
    by (rule setStates_Transitions)
next
  assume b: "unat (Transitions (haStatus n)) + state_changes (State (haStatus n)) (map fst calls) < 2 ^ 64"
  have "unat (Transitions (haStatus (setStates n calls)))
      = unat (Transitions (haStatus n) + of_nat (state_changes (State (haStatus n)) (map fst calls)))"
    by (simp only: setStates_Transitions)
  also have "\<dots> = (unat (Transitions (haStatus n)) + state_changes (State (haStatus n)) (map fst calls)) mod 2 ^ 64"
    by (simp add: unat_word_ariths unat_of_nat mod_add_right_eq)
  also have "\<dots> = unat (Transitions (haStatus n)) + state_changes (State (haStatus n)) (map fst calls)"
    using b by simp
  finally show "unat (Transitions (haStatus (setStates n calls)))
      = unat (Transitions (haStatus n)) + state_changes (State (haStatus n)) (map fst calls)" .
qed (simp_all add: setState_def)

theorem setState_counts_changes_witness:
  "State (haStatus (NewNode \<lparr>cfg_VRID = 1, cfg_Priority = 100,
        MasterAdvertInterval = Second, Preempt = False\<rparr> 0)) = HABackup
   \<and> setState (NewNode \<lparr>cfg_VRID = 1, cfg_Priority = 100,
        MasterAdvertInterval = Second, Preempt = False\<rparr> 0) HABackup 7
     = NewNode \<lparr>cfg_VRID = 1, cfg_Priority = 100, MasterAdvertInterval = Second,
                Preempt = False\<rparr> 0
   \<and> haStatus (setState (NewNode \<lparr>cfg_VRID = 1, cfg_Priority = 100,
        MasterAdvertInterval = Second, Preempt = False\<rparr> 0) HAMaster 7)
     = \<lparr>State = HAMaster, Since = 7, Sent = 0, Received = 0, ReceivedQueued = 0,
        Transitions = 2\<rparr>
   \<and> unat (Transitions (haStatus (setStates (NewNode \<lparr>cfg_VRID = 1, cfg_Priority = 100,
        MasterAdvertInterval = Second, Preempt = False\<rparr> 0)
        [(HAMaster, 1), (HAMaster, 2), (HABackup, 3)]))) = 3"
  using
    setState_counts_changes [of
      "NewNode \<lparr>cfg_VRID = 1, cfg_Priority = 100, MasterAdvertInterval = Second,
                Preempt = False\<rparr> 0" HABackup 7 8
      "[(HAMaster, 1), (HAMaster, 2), (HABackup, 3)]"]
    setState_counts_changes [of
      "NewNode \<lparr>cfg_VRID = 1, cfg_Priority = 100, MasterAdvertInterval = Second,
                Preempt = False\<rparr> 0" HAMaster 7 8 "[]"]
  by (simp add: NewNode_haStatus)

section \<open>The receive queue\<close>

lemma queue_run:
  assumes "length (chan_buf (recvChannel n)) \<le> chan_cap (recvChannel n)"
  shows "chan_buf (recvChannel (foldl queueAdvertisement n advs))
           = take (chan_cap (recvChannel n)) (chan_buf (recvChannel n) @ advs)
         \<and> errChannel (foldl queueAdvertisement n advs)
           = errChannel n @ replicate (length (chan_buf (recvChannel n) @ advs) - chan_cap (recvChannel n)) RecvChannelFull"
  using assms
proof (induction advs arbitrary: n)
  case Nil
  then show ?case by simp
next
  case (Cons a advs)
  let ?m = "queueAdvertisement n a"
  show ?case
  proof (cases "length (chan_buf (recvChannel n)) < chan_cap (recvChannel n)")
    case True
    then have m: "recvChannel ?m = (recvChannel n)\<lparr>chan_buf := chan_buf (recvChannel n) @ [a]\<rparr>"
      and e: "errChannel ?m = errChannel n"
      by (simp_all add: queueAdvertisement_def chan_try_send_def)
    have "length (chan_buf (recvChannel ?m)) \<le> chan_cap (recvChannel ?m)"
      using True by (simp add: m)
    from Cons.IH [OF this] show ?thesis by (simp add: m e)
  next
    case False
    then have full: "length (chan_buf (recvChannel n)) = chan_cap (recvChannel n)"
      using Cons.prems by simp
    have m: "recvChannel ?m = recvChannel n"
      and e: "errChannel ?m = errChannel n @ [RecvChannelFull]"
      using False by (simp_all add: queueAdvertisement_def chan_try_send_def)
    have "length (chan_buf (recvChannel ?m)) \<le> chan_cap (recvChannel ?m)"
      using full by (simp add: m)
    from Cons.IH [OF this] show ?thesis
      using full by (simp add: m e Suc_diff_le replicate_append_same flip: replicate_Suc)
  qed
qed

text \<open>
  Claim C8. The receive queue of a new node has capacity 20. Enqueueing an advertisement
  when the queue holds 20 entries leaves the queue unchanged and sends the error
  \<open>recvChannel is full\<close> on the error channel; below 20 entries the advertisement is
  appended and no error is sent. Hence, with nothing dequeued in between, up to 20
  advertisements delivered to a new node are all queued without error, and the 21st
  raises the error.
\<close>

theorem recv_queue_overflow:
  "chan_cap (recvChannel (NewNode cfg now)) = 20
   \<and> (chan_cap (recvChannel n) = 20 \<and> length (chan_buf (recvChannel n)) = 20 \<longrightarrow>
        recvChannel (queueAdvertisement n a) = recvChannel n
        \<and> errChannel (queueAdvertisement n a) = errChannel n @ [RecvChannelFull])
   \<and> (chan_cap (recvChannel n) = 20 \<and> length (chan_buf (recvChannel n)) < 20 \<longrightarrow>
        chan_buf (recvChannel (queueAdvertisement n a)) = chan_buf (recvChannel n) @ [a]
        \<and> errChannel (queueAdvertisement n a) = errChannel n)
   \<and> (length advs \<le> 20 \<longrightarrow>
        chan_buf (recvChannel (foldl queueAdvertisement (NewNode cfg now) advs)) = advs
        \<and> errChannel (foldl queueAdvertisement (NewNode cfg now) advs) = [])
   \<and> (length advs = 21 \<longrightarrow>
        chan_buf (recvChannel (foldl queueAdvertisement (NewNode cfg now) advs)) = take 20 advs
        \<and> errChannel (foldl queueAdvertisement (NewNode cfg now) advs) = [RecvChannelFull])"
proof -
  have r: "chan_buf (recvChannel (foldl queueAdvertisement (NewNode cfg now) advs)) = take 20 advs
      \<and> errChannel (foldl queueAdvertisement (NewNode cfg now) advs)
          = replicate (length advs - 20) RecvChannelFull"
    using queue_run [of "NewNode cfg now" advs] by (simp add: NewNode_channels)
  have one: "replicate (21 - 20) RecvChannelFull = [RecvChannelFull]" by simp
  show ?thesis
    using r one
    by (auto simp: NewNode_channels queueAdvertisement_def chan_try_send_def)
qed

theorem recv_queue_overflow_witness:
  "chan_cap (recvChannel ((NewNode \<lparr>cfg_VRID = 1, cfg_Priority = 100,
        MasterAdvertInterval = Second, Preempt = False\<rparr> 0)
        \<lparr>recvChannel := \<lparr>chan_cap = 20, chan_buf = replicate 20 (newAdvertisement
          (NewNode \<lparr>cfg_VRID = 1, cfg_Priority = 100, MasterAdvertInterval = Second,
                    Preempt = False\<rparr> 0))\<rparr>\<rparr>)) = 20
   \<and> length (chan_buf (recvChannel ((NewNode \<lparr>cfg_VRID = 1, cfg_Priority = 100,
        MasterAdvertInterval = Second, Preempt = False\<rparr> 0)
        \<lparr>recvChannel := \<lparr>chan_cap = 20, chan_buf = replicate 20 (newAdvertisement
          (NewNode \<lparr>cfg_VRID = 1, cfg_Priority = 100, MasterAdvertInterval = Second,
                    Preempt = False\<rparr> 0))\<rparr>\<rparr>))) = 20
   \<and> errChannel (queueAdvertisement ((NewNode \<lparr>cfg_VRID = 1, cfg_Priority = 100,
        MasterAdvertInterval = Second, Preempt = False\<rparr> 0)
        \<lparr>recvChannel := \<lparr>chan_cap = 20, chan_buf = replicate 20 (newAdvertisement
          (NewNode \<lparr>cfg_VRID = 1, cfg_Priority = 100, MasterAdvertInterval = Second,
                    Preempt = False\<rparr> 0))\<rparr>\<rparr>)
        (newAdvertisement (NewNode \<lparr>cfg_VRID = 1, cfg_Priority = 100,
           MasterAdvertInterval = Second, Preempt = False\<rparr> 0))) = [RecvChannelFull]
   \<and> length (replicate 21 (newAdvertisement (NewNode \<lparr>cfg_VRID = 1, cfg_Priority = 100,
        MasterAdvertInterval = Second, Preempt = False\<rparr> 0))) = 21
   \<and> errChannel (foldl queueAdvertisement (NewNode \<lparr>cfg_VRID = 1, cfg_Priority = 100,
        MasterAdvertInterval = Second, Preempt = False\<rparr> 0)
        (replicate 21 (newAdvertisement (NewNode \<lparr>cfg_VRID = 1, cfg_Priority = 100,
           MasterAdvertInterval = Second, Preempt = False\<rparr> 0)))) = [RecvChannelFull]
   \<and> errChannel (foldl queueAdvertisement (NewNode \<lparr>cfg_VRID = 1, cfg_Priority = 100,
        MasterAdvertInterval = Second, Preempt = False\<rparr> 0)
        (replicate 20 (newAdvertisement (NewNode \<lparr>cfg_VRID = 1, cfg_Priority = 100,
           MasterAdvertInterval = Second, Preempt = False\<rparr> 0)))) = []"
proof -
  let ?N = "NewNode \<lparr>cfg_VRID = 1, cfg_Priority = 100, MasterAdvertInterval = Second,
                     Preempt = False\<rparr> 0"
  let ?a = "newAdvertisement ?N"
  show ?thesis
    using
      recv_queue_overflow [of _ _ "?N\<lparr>recvChannel := \<lparr>chan_cap = 20, chan_buf = replicate 20 ?a\<rparr>\<rparr>"
        ?a "replicate 21 ?a"]
      recv_queue_overflow [of "\<lparr>cfg_VRID = 1, cfg_Priority = 100,
        MasterAdvertInterval = Second, Preempt = False\<rparr>" 0 ?N ?a "replicate 21 ?a"]
      recv_queue_overflow [of "\<lparr>cfg_VRID = 1, cfg_Priority = 100,
        MasterAdvertInterval = Second, Preempt = False\<rparr>" 0 ?N ?a "replicate 20 ?a"]
    by (simp add: NewNode_channels)
qed

section \<open>The transport\<close>

subsection \<open>The codec on 8 bytes\<close>

lemma be16_rd16: "be16 (rd16 hi lo) = [hi, lo]"
proof -
  have "(ucast (drop_bit 8 (push_bit 8 (ucast hi) OR ucast lo :: uint16)) :: byte) = hi"
    by (rule bit_word_eqI) (auto simp: bit_simps dest: bit_imp_le_length)
  moreover have "(ucast (push_bit 8 (ucast hi) OR ucast lo :: uint16) :: byte) = lo"
    by (rule bit_word_eqI) (auto simp: bit_simps dest: bit_imp_le_length)
  ultimately show ?thesis by (simp add: be16_def rd16_def)
qed

lemma decode_length8:
  assumes "length bs = 8"
  shows "\<exists>a. decode bs = Inr a \<and> encode a = bs"
proof -
  obtain b0 b1 b2 b3 b4 b5 b6 b7 where "bs = [b0, b1, b2, b3, b4, b5, b6, b7]"
    using assms by (auto simp: length_Suc_conv eval_nat_numeral)
  then show ?thesis by (simp add: encode_def be16_rd16)
qed

subsection \<open>Addresses of a packet that was read\<close>

lemma readIPv4Packet_addresses:
  assumes "readIPv4Packet io = Inr p"
  shows "length (src p) = 4 \<and> length (dst p) = 4"
  using assms
  by (auto simp: readIPv4Packet_def Let_def split: sum.splits if_splits)

lemma readIPv4Packet_pseudoHeader:
  assumes "readIPv4Packet io = Inr p"
  shows "\<exists>hdr. pseudoHeader (src p) (dst p) = Inr hdr"
  using readIPv4Packet_addresses [OF assms]
  by (intro pseudoHeader_total) (simp_all add: To16_def)

lemma scanControl_dst:
  assumes "scanControl scm d0 h0 t0 = Inr (Some d, h, t)"
    and "d0 = None \<or> (\<exists>x. d0 = Some x \<and> length x = 16)"
  shows "length d = 16"
  using assms
proof (induction scm d0 h0 t0 rule: scanControl.induct)
  case (1 dstIP hop haveTTL)
  then show ?case by auto
next
  case (2 sc scm dstIP hop haveTTL)
  show ?case
  proof (cases "scm_Level sc \<noteq> IPPROTO_IPV6")
    case True
    then show ?thesis using 2 by simp
  next
    case lvl: False
    show ?thesis
    proof (cases "scm_Type sc = IPV6_2292HOPLIMIT")
      case True
      show ?thesis
      proof (cases "length (scm_Data sc) = 0")
        case True
        then show ?thesis using "2.prems"(1) lvl \<open>scm_Type sc = IPV6_2292HOPLIMIT\<close> by simp
      next
        case False
        then show ?thesis using 2 lvl \<open>scm_Type sc = IPV6_2292HOPLIMIT\<close> by simp
      qed
    next
      case hl: False
      show ?thesis
      proof (cases "scm_Type sc = IPV6_2292PKTINFO")
        case True
        show ?thesis
        proof (cases "length (scm_Data sc) < 16")
          case True
          then show ?thesis using "2.prems"(1) lvl hl \<open>scm_Type sc = IPV6_2292PKTINFO\<close> by simp
        next
          case False
          then have "length (take 16 (scm_Data sc)) = 16" by simp
          then show ?thesis
            using "2.IH"(3) [OF _ hl True False] "2.prems"(1) lvl hl True False by simp
        qed
      next
        case False
        then show ?thesis using 2 lvl hl by simp
      qed
    qed
  qed
qed


lemma readIPv6Packet_dst:
  assumes "readIPv6Packet io = Inr p"
  shows "length (dst p) = 16"
proof (cases "sock_ReadMsgIP io")
  case (Inl err)
  then show ?thesis using assms by (simp add: readIPv6Packet_def)
next
  case (Inr r)
  obtain b remote parsed where r: "r = (b, remote, parsed)" by (cases r)
  show ?thesis
  proof (cases parsed)
    case (Inl err)
    then show ?thesis using assms Inr r by (simp add: readIPv6Packet_def)
  next
    case scm: (Inr scm)
    show ?thesis
    proof (cases "scanControl scm None 0 False")
      case (Inl err)
      then show ?thesis using assms Inr r scm by (simp add: readIPv6Packet_def)
    next
      case res: (Inr res)
      obtain dstIP hop haveTTL where t: "res = (dstIP, hop, haveTTL)" by (cases res)
      show ?thesis
      proof (cases dstIP)
        case None
        then show ?thesis
          using assms Inr r scm res t by (simp add: readIPv6Packet_def split: if_splits)
      next
        case (Some d)
        have "scanControl scm None 0 False = Inr (Some d, hop, haveTTL)"
          using res t Some by simp
        then have "length d = 16" by (rule scanControl_dst) simp
        moreover have "dst p = d"
          using assms Inr r scm res t Some by (auto simp: readIPv6Packet_def split: if_splits)
        ultimately show ?thesis by simp
      qed
    qed
  qed
qed

lemma readPacket_pseudoHeader:
  assumes "readPacket c io = Inr p" and "To16 (src p) \<noteq> None"
  shows "\<exists>hdr. pseudoHeader (src p) (dst p) = Inr hdr"
proof (cases "af c")
  case AF_INET
  then have "readIPv4Packet io = Inr p" using assms(1) by (simp add: readPacket_def)
  then show ?thesis by (rule readIPv4Packet_pseudoHeader)
next
  case AF_INET6
  then have "readIPv6Packet io = Inr p" using assms(1) by (simp add: readPacket_def)
  then have "length (dst p) = 16" by (rule readIPv6Packet_dst)
  then have "To16 (dst p) \<noteq> None" by (simp add: To16_def)
  with assms(2) show ?thesis by (rule pseudoHeader_total)
qed

subsection \<open>Validation\<close>

text \<open>
  Claim C6. For every packet \<open>p\<close> that \<open>readPacket\<close> returned, with \<open>hdr\<close> the
  pseudo-header of its source and destination: \<open>receive\<close> returns \<open>(nil, nil)\<close> exactly
  when the payload length differs from 8, or the source equals the local address, or the
  TTL differs from 255, or the checksum over the pseudo-header followed by the payload
  bytes as received is not 0; a packet passing all four checks is returned as the decoded
  advertisement. (An IPv4 read always has a pseudo-header, and so has an IPv6 read whose
  source address has 4 or 16 bytes: \<open>readPacket_pseudoHeader\<close>.)
\<close>

theorem receive_none_iff:
  assumes rp: "readPacket c io = Inr p" and ph: "pseudoHeader (src p) (dst p) = Inr hdr"
  shows "(receive c io = Inr None)
           = (length (payload p) \<noteq> 8 \<or> IP_Equal (src p) (laddr c) \<or> ttl p \<noteq> 255
              \<or> ipChecksum (hdr @ payload p) \<noteq> 0)
       \<and> (length (payload p) = 8 \<and> \<not> IP_Equal (src p) (laddr c) \<and> ttl p = 255
            \<and> ipChecksum (hdr @ payload p) = 0 \<longrightarrow>
            (\<exists>a. decode (payload p) = Inr a \<and> receive c io = Inr (Some a)))"
proof (cases "length (payload p) = 8")
  case False
  then show ?thesis using rp by (simp add: receive_def vrrpAdvertSize_def)
next
  case True
  then obtain a where a: "decode (payload p) = Inr a" and e: "encode a = payload p"
    using decode_length8 by blast
  have ck: "checksum a (src p) (dst p) = Inr (ipChecksum (hdr @ payload p))"
    by (simp add: checksum_def ph e)
  show ?thesis
    using True rp a ck by (simp add: receive_def vrrpAdvertSize_def)
qed

theorem receive_none_iff_witness:
  "readPacket \<lparr>laddr = [10, 0, 0, 2], raddr = [10, 0, 0, 1]\<rparr>
      \<lparr>sock_Read = Inr [0x45, 0, 0, 28, 0, 0, 0, 0, 255, 112, 0, 0, 10, 0, 0, 1, 10, 0, 0, 2,
                        0x31, 1, 100, 0, 0, 100, 0x56, 0x1f],
       sock_ReadMsgIP = Inl OtherError\<rparr>
     = Inr \<lparr>src = [10, 0, 0, 1], dst = [10, 0, 0, 2], ttl = 255,
            payload = [0x31, 1, 100, 0, 0, 100, 0x56, 0x1f]\<rparr>
   \<and> pseudoHeader [10, 0, 0, 1] [10, 0, 0, 2] = Inr [10, 0, 0, 1, 10, 0, 0, 2, 0, 112, 0, 8]
   \<and> receive \<lparr>laddr = [10, 0, 0, 2], raddr = [10, 0, 0, 1]\<rparr>
      \<lparr>sock_Read = Inr [0x45, 0, 0, 28, 0, 0, 0, 0, 255, 112, 0, 0, 10, 0, 0, 1, 10, 0, 0, 2,
                        0x31, 1, 100, 0, 0, 100, 0x56, 0x1f],
       sock_ReadMsgIP = Inl OtherError\<rparr>
     = Inr (Some \<lparr>VersionType = 0x31, VRID = 1, Priority = 100, CountIPAddrs = 0,
                  AdvertInt = 100, Checksum = 0x561f\<rparr>)"
proof -
  let ?c = "\<lparr>laddr = [10, 0, 0, 2], raddr = [10, 0, 0, 1]\<rparr>"
  let ?io = "\<lparr>sock_Read = Inr [0x45, 0, 0, 28, 0, 0, 0, 0, 255, 112, 0, 0, 10, 0, 0, 1,
                               10, 0, 0, 2, 0x31, 1, 100, 0, 0, 100, 0x56, 0x1f],
              sock_ReadMsgIP = Inl OtherError\<rparr>"
  let ?p = "\<lparr>src = [10, 0, 0, 1], dst = [10, 0, 0, 2], ttl = 255,
             payload = [0x31, 1, 100, 0, 0, 100, 0x56, 0x1f]\<rparr>"
  have rp: "readPacket ?c ?io = Inr ?p" by code_simp
  have ph: "pseudoHeader (src ?p) (dst ?p) = Inr [10, 0, 0, 1, 10, 0, 0, 2, 0, 112, 0, 8]"
    by code_simp
  have ck: "ipChecksum ([10, 0, 0, 1, 10, 0, 0, 2, 0, 112, 0, 8] @ payload ?p) = 0"
    by code_simp
  have eq: "\<not> IP_Equal (src ?p) (laddr ?c)" by code_simp
  have dc: "decode (payload ?p) = Inr \<lparr>VersionType = 0x31, VRID = 1, Priority = 100,
      CountIPAddrs = 0, AdvertInt = 100, Checksum = 0x561f\<rparr>" by code_simp
  show ?thesis
    using receive_none_iff [OF rp ph] rp ph ck eq dc by simp
qed

subsection \<open>Recoverable and unrecoverable conditions\<close>

text \<open>
  Claim C7, as amended. \<open>receive\<close> returns \<open>(nil, nil)\<close> when the read fails with a
  \<open>net.OpError\<close> of \<open>ENOPROTOOPT\<close> or \<open>EPROTO\<close>, and, once a packet has been read, it never
  fails: a payload length other than 8, a source equal to the local address, a TTL other
  than 255 and a bad checksum all give \<open>(nil, nil)\<close>. An IPv4 read of fewer than 20
  bytes, with a version nibble other than 4, or with a header length above the number of
  bytes read makes \<open>receive\<close> fail with the error of \<open>readIPv4Packet\<close>, as does every other
  read error.
\<close>

theorem receive_recoverable:
  "(readPacket c io = Inl (OpError e) \<and> (e = ENOPROTOOPT \<or> e = EPROTO) \<longrightarrow>
      receive c io = Inr None)
   \<and> (readPacket c io = Inr p \<longrightarrow> (\<exists>r. receive c io = Inr r))
   \<and> (readPacket c io = Inr p
        \<and> (length (payload p) \<noteq> 8 \<or> IP_Equal (src p) (laddr c) \<or> ttl p \<noteq> 255) \<longrightarrow>
      receive c io = Inr None)
   \<and> (readPacket c io = Inr p \<and> decode (payload p) = Inr a
        \<and> checksum a (src p) (dst p) \<noteq> Inr 0 \<longrightarrow>
      receive c io = Inr None)
   \<and> (af c = AF_INET \<and> sock_Read io = Inr b
        \<and> (length b < 20 \<or> drop_bit 4 (uint (b ! 0)) \<noteq> 4
            \<or> length b < nat (push_bit 2 (uint (b ! 0) AND 0x0f))) \<longrightarrow>
      (\<exists>err. receive c io = Inl err))
   \<and> (readPacket c io = Inl err
        \<and> err \<noteq> OpError ENOPROTOOPT \<and> err \<noteq> OpError EPROTO \<longrightarrow>
      receive c io = Inl err)"
proof (intro conjI impI)
  assume "readPacket c io = Inl (OpError e) \<and> (e = ENOPROTOOPT \<or> e = EPROTO)"
  then show "receive c io = Inr None" by (auto simp: receive_def)
next
  assume rp: "readPacket c io = Inr p"
  show "\<exists>r. receive c io = Inr r"
  proof (cases "length (payload p) = 8")
    case False
    then show ?thesis using rp by (simp add: receive_def vrrpAdvertSize_def)
  next
    case True
    then obtain a where "decode (payload p) = Inr a" using decode_length8 by blast
    then show ?thesis
      using rp True by (simp add: receive_def vrrpAdvertSize_def split: sum.splits)
  qed
next
  assume h: "readPacket c io = Inr p
        \<and> (length (payload p) \<noteq> 8 \<or> IP_Equal (src p) (laddr c) \<or> ttl p \<noteq> 255)"
  show "receive c io = Inr None"
  proof (cases "length (payload p) = 8")
    case False
    then show ?thesis using h by (simp add: receive_def vrrpAdvertSize_def)
  next
    case True
    then obtain a where "decode (payload p) = Inr a" using decode_length8 by blast
    then show ?thesis
      using h True by (auto simp: receive_def vrrpAdvertSize_def split: sum.splits)
  qed
next
  assume h: "readPacket c io = Inr p \<and> decode (payload p) = Inr a
        \<and> checksum a (src p) (dst p) \<noteq> Inr 0"
  then show "receive c io = Inr None"
    by (auto simp: receive_def split: sum.splits)
next
  assume h: "af c = AF_INET \<and> sock_Read io = Inr b
        \<and> (length b < 20 \<or> drop_bit 4 (uint (b ! 0)) \<noteq> 4
            \<or> length b < nat (push_bit 2 (uint (b ! 0) AND 0x0f)))"
  then have "readPacket c io = Inl (PacketTooSmall (length b)) \<or> readPacket c io = Inl NotIPv4
      \<or> readPacket c io
          = Inl (HeaderTooLong (nat (push_bit 2 (uint (b ! 0) AND 0x0f))) (length b))"
    by (auto simp: readPacket_def readIPv4Packet_def Let_def)
  then show "\<exists>err. receive c io = Inl err"
    by (auto simp: receive_def)
next
  assume h: "readPacket c io = Inl err \<and> err \<noteq> OpError ENOPROTOOPT \<and> err \<noteq> OpError EPROTO"
  then show "receive c io = Inl err"
    by (auto simp: receive_def split: error.splits)
qed

theorem receive_recoverable_witness:
  "readPacket \<lparr>laddr = [10, 0, 0, 2], raddr = [10, 0, 0, 1]\<rparr>
      \<lparr>sock_Read = Inl (OpError ENOPROTOOPT), sock_ReadMsgIP = Inl OtherError\<rparr>
     = Inl (OpError ENOPROTOOPT)
   \<and> receive \<lparr>laddr = [10, 0, 0, 2], raddr = [10, 0, 0, 1]\<rparr>
      \<lparr>sock_Read = Inl (OpError ENOPROTOOPT), sock_ReadMsgIP = Inl OtherError\<rparr> = Inr None
   \<and> readPacket \<lparr>laddr = [10, 0, 0, 2], raddr = [10, 0, 0, 1]\<rparr>
      \<lparr>sock_Read = Inr [0x45, 0, 0, 28, 0, 0, 0, 0, 254, 112, 0, 0, 10, 0, 0, 1, 10, 0, 0, 2,
                        0x31, 1, 100, 0, 0, 100, 0x56, 0x1f],
       sock_ReadMsgIP = Inl OtherError\<rparr>
     = Inr \<lparr>src = [10, 0, 0, 1], dst = [10, 0, 0, 2], ttl = 254,
            payload = [0x31, 1, 100, 0, 0, 100, 0x56, 0x1f]\<rparr>
   \<and> receive \<lparr>laddr = [10, 0, 0, 2], raddr = [10, 0, 0, 1]\<rparr>
      \<lparr>sock_Read = Inr [0x45, 0, 0, 28, 0, 0, 0, 0, 254, 112, 0, 0, 10, 0, 0, 1, 10, 0, 0, 2,
                        0x31, 1, 100, 0, 0, 100, 0x56, 0x1f],
       sock_ReadMsgIP = Inl OtherError\<rparr> = Inr None
   \<and> af \<lparr>laddr = [10, 0, 0, 2], raddr = [10, 0, 0, 1]\<rparr> = AF_INET
   \<and> (\<exists>err. receive \<lparr>laddr = [10, 0, 0, 2], raddr = [10, 0, 0, 1]\<rparr>
      \<lparr>sock_Read = Inr [0x45, 0, 0, 28, 0, 0, 0, 0, 255, 112],
       sock_ReadMsgIP = Inl OtherError\<rparr> = Inl err)
   \<and> receive \<lparr>laddr = [10, 0, 0, 2], raddr = [10, 0, 0, 1]\<rparr>
      \<lparr>sock_Read = Inl OtherError, sock_ReadMsgIP = Inl OtherError\<rparr> = Inl OtherError"
proof -
  let ?c = "\<lparr>laddr = [10, 0, 0, 2], raddr = [10, 0, 0, 1]\<rparr>"
  let ?io1 = "\<lparr>sock_Read = Inl (OpError ENOPROTOOPT), sock_ReadMsgIP = Inl OtherError\<rparr>"
  let ?io2 = "\<lparr>sock_Read = Inr [0x45, 0, 0, 28, 0, 0, 0, 0, 254, 112, 0, 0, 10, 0, 0, 1,
                                10, 0, 0, 2, 0x31, 1, 100, 0, 0, 100, 0x56, 0x1f],
               sock_ReadMsgIP = Inl OtherError\<rparr>"
  let ?p2 = "\<lparr>src = [10, 0, 0, 1], dst = [10, 0, 0, 2], ttl = 254,
              payload = [0x31, 1, 100, 0, 0, 100, 0x56, 0x1f]\<rparr>"
  let ?io3 = "\<lparr>sock_Read = Inr [0x45, 0, 0, 28, 0, 0, 0, 0, 255, 112],
               sock_ReadMsgIP = Inl OtherError\<rparr>"
  let ?io4 = "\<lparr>sock_Read = Inl OtherError, sock_ReadMsgIP = Inl OtherError\<rparr>"
  have afc: "af ?c = AF_INET" by (simp add: af_def To4_def)
  have r1: "readPacket ?c ?io1 = Inl (OpError ENOPROTOOPT)"
    by (simp add: readPacket_def afc readIPv4Packet_def)
  have r2: "readPacket ?c ?io2 = Inr ?p2"
    by (simp add: readPacket_def afc readIPv4Packet_def Let_def)
  have r4: "readPacket ?c ?io4 = Inl OtherError"
    by (simp add: readPacket_def afc readIPv4Packet_def)
  show ?thesis
    using afc r1 r2 r4
      receive_recoverable [of ?c ?io1 ENOPROTOOPT]
      receive_recoverable [of ?c ?io2 _ ?p2]
      receive_recoverable [of ?c ?io3 _ _ _ "[0x45, 0, 0, 28, 0, 0, 0, 0, 255, 112]"]
      receive_recoverable [of ?c ?io4 _ _ _ _ OtherError]
    by simp
qed

text \<open>
  The claim as stated fails on malformed IPv4 packets: a read of 10 bytes, a version
  nibble of 6 and a header length of 60 in a packet of 28 bytes each make \<open>receive\<close>
  fail with an error instead of returning \<open>(nil, nil)\<close>.
\<close>

theorem receive_recoverable_counterexample:
  "receive \<lparr>laddr = [10, 0, 0, 2], raddr = [10, 0, 0, 1]\<rparr>
      \<lparr>sock_Read = Inr [0x45, 0, 0, 28, 0, 0, 0, 0, 255, 112],
       sock_ReadMsgIP = Inl OtherError\<rparr> = Inl (PacketTooSmall 10)
   \<and> receive \<lparr>laddr = [10, 0, 0, 2], raddr = [10, 0, 0, 1]\<rparr>
      \<lparr>sock_Read = Inr [0x65, 0, 0, 28, 0, 0, 0, 0, 255, 112, 0, 0, 10, 0, 0, 1, 10, 0, 0, 2,
                        0x31, 1, 100, 0, 0, 100, 0x56, 0x1f],
       sock_ReadMsgIP = Inl OtherError\<rparr> = Inl NotIPv4
   \<and> receive \<lparr>laddr = [10, 0, 0, 2], raddr = [10, 0, 0, 1]\<rparr>
      \<lparr>sock_Read = Inr [0x4f, 0, 0, 28, 0, 0, 0, 0, 255, 112, 0, 0, 10, 0, 0, 1, 10, 0, 0, 2,
                        0x31, 1, 100, 0, 0, 100, 0x56, 0x1f],
       sock_ReadMsgIP = Inl OtherError\<rparr> = Inl (HeaderTooLong 60 28)"
  by (simp add: receive_def readPacket_def af_def To4_def readIPv4Packet_def Let_def)

subsection \<open>Sending\<close>

text \<open>
  Claim C9, as amended. When setting the write deadline succeeds: if the advertisement's
  \<open>Checksum\<close> field is 0 and the checksum over the local/remote pseudo-header can be
  computed, \<open>send\<close> stores it into the caller's record before encoding, so the caller
  sees the new \<open>Checksum\<close> after the call and the bytes handed to the socket are the
  encoding of the updated record; if the field is not 0, the bytes handed to the socket
  are the encoding of the record as it is. A record with a nonzero \<open>Checksum\<close> is never
  changed. When setting the write deadline fails, \<open>send\<close> returns that error and neither
  changes the record nor writes anything.
\<close>

theorem send_checksum_frame:
  "(io_SetWriteDeadline io = None \<and> Checksum advert = 0
      \<and> checksum advert (laddr c) (raddr c) = Inr ck \<longrightarrow>
      fst (snd (send c advert io)) = advert\<lparr>Checksum := ck\<rparr>
      \<and> snd (snd (send c advert io)) = Some (encode (advert\<lparr>Checksum := ck\<rparr>)))
   \<and> (Checksum advert \<noteq> 0 \<longrightarrow> fst (snd (send c advert io)) = advert)
   \<and> (io_SetWriteDeadline io = None \<and> Checksum advert \<noteq> 0 \<longrightarrow>
      snd (snd (send c advert io)) = Some (encode advert))
   \<and> (io_SetWriteDeadline io = Some err \<longrightarrow> send c advert io = (Some err, advert, None))"
  by (auto simp: send_def split: option.splits sum.splits)

theorem send_checksum_frame_witness:
  "checksum \<lparr>VersionType = 0x31, VRID = 1, Priority = 100, CountIPAddrs = 0,
              AdvertInt = 100, Checksum = 0\<rparr> [10, 0, 0, 1] [10, 0, 0, 2] = Inr 0x561f
   \<and> send \<lparr>laddr = [10, 0, 0, 1], raddr = [10, 0, 0, 2]\<rparr>
        \<lparr>VersionType = 0x31, VRID = 1, Priority = 100, CountIPAddrs = 0,
         AdvertInt = 100, Checksum = 0\<rparr>
        \<lparr>io_SetWriteDeadline = None, io_WriteToIP = None\<rparr>
     = (None,
        \<lparr>VersionType = 0x31, VRID = 1, Priority = 100, CountIPAddrs = 0,
         AdvertInt = 100, Checksum = 0x561f\<rparr>,
        Some [0x31, 1, 100, 0, 0, 100, 0x56, 0x1f])
   \<and> send \<lparr>laddr = [10, 0, 0, 1], raddr = [10, 0, 0, 2]\<rparr>
        \<lparr>VersionType = 0x31, VRID = 1, Priority = 100, CountIPAddrs = 0,
         AdvertInt = 100, Checksum = 0x1234\<rparr>
        \<lparr>io_SetWriteDeadline = None, io_WriteToIP = None\<rparr>
     = (None,
        \<lparr>VersionType = 0x31, VRID = 1, Priority = 100, CountIPAddrs = 0,
         AdvertInt = 100, Checksum = 0x1234\<rparr>,
        Some [0x31, 1, 100, 0, 0, 100, 0x12, 0x34])
   \<and> send \<lparr>laddr = [10, 0, 0, 1], raddr = [10, 0, 0, 2]\<rparr>
        \<lparr>VersionType = 0x31, VRID = 1, Priority = 100, CountIPAddrs = 0,
         AdvertInt = 100, Checksum = 0x1234\<rparr>
        \<lparr>io_SetWriteDeadline = Some OtherError, io_WriteToIP = None\<rparr>
     = (Some OtherError,
        \<lparr>VersionType = 0x31, VRID = 1, Priority = 100, CountIPAddrs = 0,
         AdvertInt = 100, Checksum = 0x1234\<rparr>,
        None)"
proof -
  let ?c = "\<lparr>laddr = [10, 0, 0, 1], raddr = [10, 0, 0, 2]\<rparr>"
  let ?a0 = "\<lparr>VersionType = 0x31, VRID = 1, Priority = 100, CountIPAddrs = 0,
              AdvertInt = 100, Checksum = 0\<rparr>"
  let ?a1 = "\<lparr>VersionType = 0x31, VRID = 1, Priority = 100, CountIPAddrs = 0,
              AdvertInt = 100, Checksum = 0x1234\<rparr>"
  let ?ok = "\<lparr>io_SetWriteDeadline = None, io_WriteToIP = None\<rparr>"
  let ?bad = "\<lparr>io_SetWriteDeadline = Some OtherError, io_WriteToIP = None\<rparr>"
  have ck: "checksum ?a0 (laddr ?c) (raddr ?c) = Inr 0x561f" by code_simp
  have e0: "encode (?a0\<lparr>Checksum := 0x561f\<rparr>) = [0x31, 1, 100, 0, 0, 100, 0x56, 0x1f]"
    by code_simp
  have e1: "encode ?a1 = [0x31, 1, 100, 0, 0, 100, 0x12, 0x34]" by code_simp
  have s0: "fst (send ?c ?a0 ?ok) = None" using ck by (simp add: send_def)
  have s1: "fst (send ?c ?a1 ?ok) = None" by (simp add: send_def)
  show ?thesis
    using ck e0 e1 s0 s1
      send_checksum_frame [of ?ok ?a0 ?c "0x561f"]
      send_checksum_frame [of ?ok ?a1 ?c]
      send_checksum_frame [of ?bad ?a1 ?c _ OtherError]
    by (simp add: prod_eq_iff)
qed

text \<open>
  The claim as stated, for every advertisement passed to \<open>send\<close>, fails when setting the
  write deadline fails: the checksum of this advertisement is \<open>0x561f\<close>, but \<open>send\<close>
  returns the error with the \<open>Checksum\<close> field still 0 and hands nothing to the socket.
\<close>

theorem send_checksum_frame_counterexample:
  "checksum \<lparr>VersionType = 0x31, VRID = 1, Priority = 100, CountIPAddrs = 0,
              AdvertInt = 100, Checksum = 0\<rparr> [10, 0, 0, 1] [10, 0, 0, 2] = Inr 0x561f
   \<and> send \<lparr>laddr = [10, 0, 0, 1], raddr = [10, 0, 0, 2]\<rparr>
        \<lparr>VersionType = 0x31, VRID = 1, Priority = 100, CountIPAddrs = 0,
         AdvertInt = 100, Checksum = 0\<rparr>
        \<lparr>io_SetWriteDeadline = Some OtherError, io_WriteToIP = None\<rparr>
     = (Some OtherError,
        \<lparr>VersionType = 0x31, VRID = 1, Priority = 100, CountIPAddrs = 0,
         AdvertInt = 100, Checksum = 0\<rparr>,
        None)"
proof -
  have "checksum \<lparr>VersionType = 0x31, VRID = 1, Priority = 100, CountIPAddrs = 0,
              AdvertInt = 100, Checksum = 0\<rparr> [10, 0, 0, 1] [10, 0, 0, 2] = Inr 0x561f"
    by code_simp
  then show ?thesis by (simp add: send_def)
qed

end
